theory Spec2Isabelle
  imports Main "HOL-Library.Monad_Syntax" "HOL-Library.Char_ord"
begin

section \<open>The scanner (lexer.go)\<close>

subsection \<open>Tokens\<close>

text \<open>
  The token enumeration of lexer.go, in the order of the \<^verbatim>\<open>iota\<close> block. The source's
  \<^verbatim>\<open>INT\<close> is written \<open>INT_tok\<close>: \<^verbatim>\<open>INT\<close> is reserved syntax of HOL.
\<close>

datatype Token =
    ILLEGAL | EOF | ANNOTATION | WS
  | STRING | IDENT
  | COMMA | BACKTICK | SEMI_COLON | OPEN_PAREN | CLOSE_PAREN
  | SIZE | BIT | TINYINT | SMALLINT | INT_tok | BIGINT | FLOAT | DOUBLE
  | LONGTEXT | MEDIUMTEXT | VARCHAR | DATE | TIME | DATETIME | TIMESTAMP
  | DROP | LOCK | UNLOCK | TABLES | WRITE | IF | EXISTS | EQUAL | CREATE | TABLE
  | DEFAULT | NOT | NULL | COMMENT | KEY | UNIQUE | CONSTRAINT | PRIMARY
  | FOREIGN | REFERENCES | AUTO_INCREMENT | CURRENT_TIMESTAMP

text \<open>The integer value \<^verbatim>\<open>iota\<close> gives each token; the parser compares tokens by it.\<close>

fun Token_int :: "Token \<Rightarrow> nat" where
  "Token_int ILLEGAL = 0" | "Token_int EOF = 1" | "Token_int ANNOTATION = 2"
| "Token_int WS = 3" | "Token_int STRING = 4" | "Token_int IDENT = 5"
| "Token_int COMMA = 6" | "Token_int BACKTICK = 7" | "Token_int SEMI_COLON = 8"
| "Token_int OPEN_PAREN = 9" | "Token_int CLOSE_PAREN = 10" | "Token_int SIZE = 11"
| "Token_int BIT = 12" | "Token_int TINYINT = 13" | "Token_int SMALLINT = 14"
| "Token_int INT_tok = 15" | "Token_int BIGINT = 16" | "Token_int FLOAT = 17"
| "Token_int DOUBLE = 18" | "Token_int LONGTEXT = 19" | "Token_int MEDIUMTEXT = 20"
| "Token_int VARCHAR = 21" | "Token_int DATE = 22" | "Token_int TIME = 23"
| "Token_int DATETIME = 24" | "Token_int TIMESTAMP = 25" | "Token_int DROP = 26"
| "Token_int LOCK = 27" | "Token_int UNLOCK = 28" | "Token_int TABLES = 29"
| "Token_int WRITE = 30" | "Token_int IF = 31" | "Token_int EXISTS = 32"
| "Token_int EQUAL = 33" | "Token_int CREATE = 34" | "Token_int TABLE = 35"
| "Token_int DEFAULT = 36" | "Token_int NOT = 37" | "Token_int NULL = 38"
| "Token_int COMMENT = 39" | "Token_int KEY = 40" | "Token_int UNIQUE = 41"
| "Token_int CONSTRAINT = 42" | "Token_int PRIMARY = 43" | "Token_int FOREIGN = 44"
| "Token_int REFERENCES = 45" | "Token_int AUTO_INCREMENT = 46"
| "Token_int CURRENT_TIMESTAMP = 47"

subsection \<open>Character classes\<close>

text \<open>
  A rune is a \<^typ>\<open>char\<close> and the input is the sequence of runes the reader decodes.
  \<^verbatim>\<open>eof\<close> is \<^verbatim>\<open>rune(0)\<close>, so a NUL rune of the input is indistinguishable from the
  end of the input wherever the source compares with \<^verbatim>\<open>eof\<close>.
\<close>

definition eof :: char where
  "eof = CHR 0x00"

definition isWhitespace :: "char \<Rightarrow> bool" where
  "isWhitespace ch \<longleftrightarrow> ch = CHR '' '' \<or> ch = CHR 0x09 \<or> ch = CHR 0x0A"

definition isLetter :: "char \<Rightarrow> bool" where
  "isLetter ch \<longleftrightarrow> (CHR ''a'' \<le> ch \<and> ch \<le> CHR ''z'') \<or> (CHR ''A'' \<le> ch \<and> ch \<le> CHR ''Z'')"

definition isDigit :: "char \<Rightarrow> bool" where
  "isDigit ch \<longleftrightarrow> CHR ''0'' \<le> ch \<and> ch \<le> CHR ''9''"

definition isString :: "char \<Rightarrow> bool" where
  "isString ch \<longleftrightarrow> ch = CHR 0x27"

subsection \<open>The buffered reader\<close>

text \<open>
  The scanner reads through Go's \<^verbatim>\<open>bufio.Reader\<close>, which is not part of the repository.
  Its state, as far as \<^verbatim>\<open>ReadRune\<close> and \<^verbatim>\<open>UnreadRune\<close> show it, is the runes not yet
  read and the rune that \<^verbatim>\<open>UnreadRune\<close> can give back. \<^verbatim>\<open>ReadRune\<close> fails at the end of
  the input and then nothing can be unread; \<^verbatim>\<open>UnreadRune\<close> gives back the rune of the
  last call when that call was a successful \<^verbatim>\<open>ReadRune\<close>, and otherwise fails and changes
  nothing, so the second of two \<^verbatim>\<open>UnreadRune\<close> calls in a row has no effect.
\<close>

record Reader =
  runes :: string
  lastRune :: "char option"

definition ReadRune :: "Reader \<Rightarrow> char option \<times> Reader" where
  "ReadRune b =
     (case runes b of
        [] \<Rightarrow> (None, b\<lparr>lastRune := None\<rparr>)
      | c # cs \<Rightarrow> (Some c, b\<lparr>runes := cs, lastRune := Some c\<rparr>))"

definition UnreadRune :: "Reader \<Rightarrow> Reader" where
  "UnreadRune b =
     (case lastRune b of
        None \<Rightarrow> b
      | Some c \<Rightarrow> b\<lparr>runes := c # runes b, lastRune := None\<rparr>)"

text \<open>A \<^verbatim>\<open>Scanner\<close> holds nothing but its reader \<^verbatim>\<open>r\<close>.\<close>

type_synonym Scanner = Reader

definition NewScanner :: "string \<Rightarrow> Scanner" where
  "NewScanner input = \<lparr>runes = input, lastRune = None\<rparr>"

definition read :: "Scanner \<Rightarrow> char \<times> Scanner" where
  "read s = (case ReadRune s of (None, s1) \<Rightarrow> (eof, s1) | (Some ch, s1) \<Rightarrow> (ch, s1))"

definition unread :: "Scanner \<Rightarrow> Scanner" where
  "unread s = UnreadRune s"

subsection \<open>Scanning one token\<close>

text \<open>
  Every \<^verbatim>\<open>for\<close> loop of the source is a recursive function in the option monad, where
  \<open>None\<close> is a loop that never ends. A token with its literal and the scanner after it
  is the result of each scan routine.
\<close>

type_synonym scanned = "(Token \<times> string) \<times> Scanner"

partial_function (option) scanWhitespace_loop :: "string \<Rightarrow> Scanner \<Rightarrow> scanned option" where
  "scanWhitespace_loop buf s =
     (case read s of (ch, s1) \<Rightarrow>
        if ch = eof then Some ((WS, buf), s1)
        else if \<not> isWhitespace ch then Some ((WS, buf), unread s1)
        else scanWhitespace_loop (buf @ [ch]) s1)"

definition scanWhitespace :: "Scanner \<Rightarrow> scanned option" where
  "scanWhitespace s = (case read s of (ch, s1) \<Rightarrow> scanWhitespace_loop [ch] s1)"

partial_function (option) scanDigit_loop :: "string \<Rightarrow> Scanner \<Rightarrow> scanned option" where
  "scanDigit_loop buf s =
     (case read s of (ch, s1) \<Rightarrow>
        if ch = eof then Some ((SIZE, buf), s1)
        else if \<not> isDigit ch then Some ((SIZE, buf), unread s1)
        else scanDigit_loop (buf @ [ch]) s1)"

definition scanDigit :: "Scanner \<Rightarrow> scanned option" where
  "scanDigit s = (case read s of (ch, s1) \<Rightarrow> scanDigit_loop [ch] s1)"

text \<open>The closure \<^verbatim>\<open>readString\<close> of \<^verbatim>\<open>scanString\<close>: it has no test for the end of input.\<close>

partial_function (option) readString :: "char \<Rightarrow> string \<Rightarrow> Scanner \<Rightarrow> (string \<times> Scanner) option" where
  "readString c buf s =
     (case read s of (ch, s1) \<Rightarrow>
        if ch = c then Some (buf, s1)
        else readString c (buf @ [ch]) s1)"

definition scanString :: "Scanner \<Rightarrow> scanned option" where
  "scanString s =
     (case read s of (ch, s1) \<Rightarrow>
        if ch = CHR 0x60 then
          do { (lit, s2) \<leftarrow> readString (CHR 0x60) [] s1; Some ((IDENT, lit), s2) }
        else if ch = CHR 0x27 then
          do { (lit, s2) \<leftarrow> readString (CHR 0x27) [] s1; Some ((STRING, lit), s2) }
        else Some ((ILLEGAL, [ch]), s1))"

partial_function (option) scanInlineComment :: "Scanner \<Rightarrow> scanned option" where
  "scanInlineComment s =
     (case read s of (ch, s1) \<Rightarrow>
        if ch = eof then Some ((ILLEGAL, []), s1)
        else if ch = CHR ''*'' then
          (case read s1 of (c, s2) \<Rightarrow>
             if c = CHR ''/'' then Some ((ANNOTATION, []), s2)
             else scanInlineComment s2)
        else scanInlineComment s1)"

text \<open>
  \<^verbatim>\<open>strings.ToUpper\<close> on the buffer of \<^verbatim>\<open>scanIdent\<close>, which holds ASCII letters, digits
  and underscores only. A lower-case ASCII letter and its upper-case form differ by 32,
  which is bit 5 of the rune.
\<close>

definition ToUpper_rune :: "char \<Rightarrow> char" where
  "ToUpper_rune ch =
     (if CHR ''a'' \<le> ch \<and> ch \<le> CHR ''z'' then
        (case ch of Char b0 b1 b2 b3 b4 b5 b6 b7 \<Rightarrow> Char b0 b1 b2 b3 b4 False b6 b7)
      else ch)"

definition ToUpper :: "string \<Rightarrow> string" where
  "ToUpper str = map ToUpper_rune str"

definition keyword :: "string \<Rightarrow> Token" where
  "keyword u =
     (if u = ''DROP'' then DROP
      else if u = ''IF'' then IF
      else if u = ''EXISTS'' then EXISTS
      else if u = ''LOCK'' then LOCK
      else if u = ''UNLOCK'' then UNLOCK
      else if u = ''TABLES'' then TABLES
      else if u = ''WRITE'' then WRITE
      else if u = ''CREATE'' then CREATE
      else if u = ''TABLE'' then TABLE
      else if u = ''NOT'' then NOT
      else if u = ''NULL'' then NULL
      else if u = ''DEFAULT'' then DEFAULT
      else if u = ''COMMENT'' then COMMENT
      else if u = ''KEY'' then KEY
      else if u = ''UNIQUE'' then UNIQUE
      else if u = ''CONSTRAINT'' then CONSTRAINT
      else if u = ''PRIMARY'' then PRIMARY
      else if u = ''FOREIGN'' then FOREIGN
      else if u = ''REFERENCES'' then REFERENCES
      else if u = ''AUTO_INCREMENT'' then AUTO_INCREMENT
      else if u = ''CURRENT_TIMESTAMP'' then CURRENT_TIMESTAMP
      else if u = ''BIT'' then BIT
      else if u = ''TINYINT'' then TINYINT
      else if u = ''SMALLINT'' then SMALLINT
      else if u = ''INT'' then INT_tok
      else if u = ''BIGINT'' then BIGINT
      else if u = ''FLOAT'' then FLOAT
      else if u = ''DOUBLE'' then DOUBLE
      else if u = ''VARCHAR'' then VARCHAR
      else if u = ''LONGTEXT'' then LONGTEXT
      else if u = ''MEDIUMTEXT'' then MEDIUMTEXT
      else if u = ''DATE'' then DATE
      else if u = ''TIME'' then TIME
      else if u = ''DATETIME'' then DATETIME
      else if u = ''TIMESTAMP'' then TIMESTAMP
      else IDENT)"

partial_function (option) scanIdent_loop :: "string \<Rightarrow> Scanner \<Rightarrow> scanned option" where
  "scanIdent_loop buf s =
     (case read s of (ch, s1) \<Rightarrow>
        if ch = eof then Some ((keyword (ToUpper buf), buf), s1)
        else if \<not> isLetter ch \<and> \<not> isDigit ch \<and> ch \<noteq> CHR ''_'' then
          Some ((keyword (ToUpper buf), buf), unread s1)
        else scanIdent_loop (buf @ [ch]) s1)"

definition Scanner_scanIdent :: "Scanner \<Rightarrow> scanned option" where
  "Scanner_scanIdent s = (case read s of (ch, s1) \<Rightarrow> scanIdent_loop [ch] s1)"

text \<open>The loop of the \<^verbatim>\<open>--\<close> case of \<^verbatim>\<open>Scan\<close>: it leaves on a newline only.\<close>

partial_function (option) Scan_comment_loop :: "Scanner \<Rightarrow> scanned option" where
  "Scan_comment_loop s =
     (case read s of (c, s1) \<Rightarrow>
        if c = CHR 0x0A then Some ((ANNOTATION, []), s1)
        else Scan_comment_loop s1)"

definition Scan :: "Scanner \<Rightarrow> scanned option" where
  "Scan s =
     (case read s of (ch, s1) \<Rightarrow>
        if isWhitespace ch then scanWhitespace (unread s1)
        else if isLetter ch then Scanner_scanIdent (unread s1)
        else if isDigit ch then scanDigit (unread s1)
        else if ch = CHR 0x27 \<or> ch = CHR 0x60 then scanString (unread s1)
        else if ch = CHR ''/'' then
          (case read s1 of (c, s2) \<Rightarrow>
             if c = CHR ''*'' then scanInlineComment (unread (unread s2))
             else Some ((ILLEGAL, [ch]), unread s2))
        else if ch = eof then Some ((EOF, ''EOF''), s1)
        else if ch = CHR '','' then Some ((COMMA, '',''), s1)
        else if ch = CHR ''('' then Some ((OPEN_PAREN, ''(''), s1)
        else if ch = CHR '')'' then Some ((CLOSE_PAREN, '')''), s1)
        else if ch = CHR '';'' then Some ((SEMI_COLON, '';''), s1)
        else if ch = CHR ''='' then Some ((EQUAL, ''=''), s1)
        else if ch = CHR ''-'' then
          (case read s1 of (c, s2) \<Rightarrow>
             if c = CHR ''-'' then Scan_comment_loop s2
             else Some ((ILLEGAL, [ch]), s2))
        else Some ((ILLEGAL, [ch]), s1))"

section \<open>The parser (parser.go)\<close>

subsection \<open>Data model\<close>

text \<open>
  \<^verbatim>\<open>Default\<close> is an \<^verbatim>\<open>interface{}\<close> that is nil or holds a string. The Go maps are maps
  of HOL; a struct reached through a pointer is the record itself, since no two places
  of the source share one.
\<close>

record Column =
  Name :: string
  Type :: string
  Size :: int
  Default :: "string option"
  Comment :: string
  Nullable :: bool
  AutoIncr :: bool

record Constraint =
  Index :: string
  ForeignKey :: string
  TableName :: string
  ColumnName :: string

record Table =
  Name :: string
  Columns :: "string \<rightharpoonup> Column"
  PrimaryKey :: string
  UniqueKeys :: "string \<rightharpoonup> string"
  Keys :: "string \<rightharpoonup> string"
  Constraints :: "string \<rightharpoonup> Constraint"
  Extras :: "string \<rightharpoonup> string"

type_synonym Schema = "string \<rightharpoonup> Table"

text \<open>
  The parser state: the scanner and the pushback buffer \<^verbatim>\<open>buf\<close> with its fields
  \<^verbatim>\<open>tok\<close>, \<^verbatim>\<open>lit\<close> and \<^verbatim>\<open>n\<close>. The source's field \<^verbatim>\<open>s\<close> is \<open>scanner\<close> here.
\<close>

record Parser =
  scanner :: Scanner
  buf_tok :: Token
  buf_lit :: string
  buf_n :: int

text \<open>
  An error of \<^verbatim>\<open>fmt.Errorf\<close> is its format string with its arguments, unformatted.
\<close>

datatype fmt_arg = Arg_Token Token | Arg_string string

datatype error = Errorf string "fmt_arg list"

text \<open>
  The table \<^verbatim>\<open>Type\<close> that \<^verbatim>\<open>init\<close> fills, named \<open>Type_table\<close> here; a token without an
  entry reads as the empty string, as a missing key of a Go map does.
\<close>

definition Type_table :: "Token \<Rightarrow> string" where
  "Type_table tok =
     (if tok = BIT then ''bit''
      else if tok = TINYINT then ''tinyint''
      else if tok = SMALLINT then ''smallint''
      else if tok = INT_tok then ''int''
      else if tok = BIGINT then ''bigint''
      else if tok = FLOAT then ''float''
      else if tok = DOUBLE then ''double''
      else if tok = VARCHAR then ''varchar''
      else if tok = LONGTEXT then ''longtext''
      else if tok = MEDIUMTEXT then ''mediumtext''
      else if tok = DATE then ''date''
      else if tok = TIME then ''time''
      else if tok = DATETIME then ''datetime''
      else if tok = TIMESTAMP then ''timestamp''
      else [])"

text \<open>
  \<^verbatim>\<open>strconv.Atoi\<close> of the Go library with its error dropped, as \<^verbatim>\<open>scanType\<close> drops it:
  an optional sign and decimal digits; 0 on a syntax error; the nearest 64-bit integer when
  the number is out of range.
\<close>

definition digit_val :: "char \<Rightarrow> int" where
  "digit_val ch = int (of_char ch) - 48"

definition Atoi :: "string \<Rightarrow> int" where
  "Atoi str =
     (let neg = (str \<noteq> [] \<and> hd str = CHR ''-'');
          ds = (if str \<noteq> [] \<and> (hd str = CHR ''-'' \<or> hd str = CHR ''+'') then tl str else str)
      in if ds = [] \<or> \<not> list_all isDigit ds then 0
         else let v = foldl (\<lambda>acc d. 10 * acc + digit_val d) 0 ds
              in if neg then max (- (2 ^ 63)) (- v) else min (2 ^ 63 - 1) v)"

subsection \<open>The pushback buffer\<close>

definition NewParser :: "string \<Rightarrow> Parser" where
  "NewParser input = \<lparr>scanner = NewScanner input, buf_tok = ILLEGAL, buf_lit = [], buf_n = 0\<rparr>"

type_synonym scanned_tok = "(Token \<times> string) \<times> Parser"

definition scan :: "Parser \<Rightarrow> scanned_tok option" where
  "scan p =
     (if buf_n p \<noteq> 0 then Some ((buf_tok p, buf_lit p), p\<lparr>buf_n := 0\<rparr>)
      else do {
        ((tok, lit), s1) \<leftarrow> Scan (scanner p);
        Some ((tok, lit), p\<lparr>scanner := s1, buf_tok := tok, buf_lit := lit\<rparr>)
      })"

definition unscan :: "Parser \<Rightarrow> Parser" where
  "unscan p = p\<lparr>buf_n := 1\<rparr>"

definition scanIgnoreWhitespace :: "Parser \<Rightarrow> scanned_tok option" where
  "scanIgnoreWhitespace p =
     do {
       ((tok, lit), p1) \<leftarrow> scan p;
       if tok = WS \<or> tok = ANNOTATION then scan p1 else Some ((tok, lit), p1)
     }"

definition Parser_scanIdent :: "Parser \<Rightarrow> scanned_tok option" where
  "Parser_scanIdent p =
     do {
       ((tok, lit), p1) \<leftarrow> scanIgnoreWhitespace p;
       if tok \<noteq> IDENT then Some ((ILLEGAL, lit), p1) else Some ((tok, lit), p1)
     }"

subsection \<open>Grammar rules\<close>

text \<open>
  A rule that can fail returns \<open>Inl\<close> of the error, or \<open>Inr\<close> of its value and the parser
  after it. An error ends \<^verbatim>\<open>Parse\<close>, so the parser is not kept after one.
\<close>

type_synonym 'a parsed = "(error + 'a \<times> Parser) option"

definition scanType :: "Parser \<Rightarrow> (string \<times> int) parsed" where
  "scanType p =
     do {
       ((tok, lit), p1) \<leftarrow> scanIgnoreWhitespace p;
       if Token_int BIT \<le> Token_int tok \<and> Token_int tok \<le> Token_int TIMESTAMP then
         do {
           ((tok1, lit1), p2) \<leftarrow> scanIgnoreWhitespace p1;
           if tok1 \<noteq> OPEN_PAREN then Some (Inr ((Type_table tok, 0), unscan p2))
           else do {
             ((tok2, lit2), p3) \<leftarrow> scanIgnoreWhitespace p2;
             ((tok3, lit3), p4) \<leftarrow> scanIgnoreWhitespace p3;
             if tok2 \<noteq> SIZE \<or> tok3 \<noteq> CLOSE_PAREN then
               Some (Inl (Errorf ''found %q, expected type(integer)''
                            [Arg_string (lit @ lit1 @ lit2 @ lit3)]))
             else Some (Inr ((Type_table tok, Atoi lit2), p4))
           }
         }
       else Some (Inl (Errorf ''found %q, expected type'' [Arg_string lit]))
     }"

definition scanDefault :: "Parser \<Rightarrow> string parsed" where
  "scanDefault p =
     do {
       ((tok, lit), p1) \<leftarrow> scanIgnoreWhitespace p;
       if tok \<noteq> DEFAULT then Some (Inl (Errorf ''found %q, expected DEFAULT'' [Arg_string lit]))
       else do {
         ((tok, lit), p2) \<leftarrow> scanIgnoreWhitespace p1;
         if tok = NULL then Some (Inr (''null'', p2))
         else if tok = CURRENT_TIMESTAMP then Some (Inr (''current_timestamp'', p2))
         else if tok = STRING then Some (Inr (lit, p2))
         else Some (Inl (Errorf ''found %q, expected NULL or value'' [Arg_string lit]))
       }
     }"

text \<open>The clause loop of \<^verbatim>\<open>scanColumn\<close>, with the column built so far.\<close>

partial_function (option) scanColumn_loop :: "Column \<Rightarrow> Parser \<Rightarrow> Column parsed" where
  "scanColumn_loop column p =
     do {
       ((tok, lit), p1) \<leftarrow> scanIgnoreWhitespace p;
       if tok = DEFAULT then
         do {
           r \<leftarrow> scanDefault (unscan p1);
           case r of
             Inl err \<Rightarrow> Some (Inl err)
           | Inr (val, p2) \<Rightarrow>
               scanColumn_loop (column\<lparr>Default := Some val, Nullable := (val = ''null'')\<rparr>) p2
         }
       else if tok = NULL then scanColumn_loop (column\<lparr>Nullable := True\<rparr>) p1
       else if tok = NOT then
         do {
           ((tok1, lit1), p2) \<leftarrow> scanIgnoreWhitespace p1;
           if tok1 \<noteq> NULL then Some (Inl (Errorf ''found %q, expected NULL'' [Arg_string lit1]))
           else scanColumn_loop (column\<lparr>Nullable := False\<rparr>) p2
         }
       else if tok = COMMENT then
         do {
           ((tok1, lit1), p2) \<leftarrow> scanIgnoreWhitespace p1;
           if tok1 = STRING then scanColumn_loop (column\<lparr>Comment := lit1\<rparr>) p2
           else Some (Inl (Errorf (''found %q, expected '' @ [CHR 0x27] @ ''comment'' @ [CHR 0x27])
                             [Arg_string lit1]))
         }
       else if tok = AUTO_INCREMENT then scanColumn_loop (column\<lparr>AutoIncr := True\<rparr>) p1
       else if tok = COMMA \<or> tok = CLOSE_PAREN then Some (Inr (column, unscan p1))
       else if tok = EOF then Some (Inl (Errorf ''unexpected EOF'' []))
       else Some (Inl (Errorf ''found %q, expected column constraint'' [Arg_string lit]))
     }"

text \<open>\<^verbatim>\<open>&Column{}\<close> is the column of zero values.\<close>

definition Column_zero :: Column where
  "Column_zero = \<lparr>Column.Name = [], Type = [], Size = 0, Default = None, Comment = [],
                   Nullable = False, AutoIncr = False\<rparr>"

definition scanColumn :: "Parser \<Rightarrow> Column parsed" where
  "scanColumn p =
     do {
       ((tok, lit), p1) \<leftarrow> Parser_scanIdent p;
       if tok \<noteq> IDENT then Some (Inl (Errorf ''found %q, expected ident'' [Arg_string lit]))
       else do {
         r \<leftarrow> scanType p1;
         case r of
           Inl err \<Rightarrow> Some (Inl err)
         | Inr ((t, sz), p2) \<Rightarrow>
             scanColumn_loop (Column_zero\<lparr>Column.Name := lit, Type := t, Size := sz\<rparr>) p2
       }
     }"

definition scanParenIdent :: "Parser \<Rightarrow> scanned_tok option" where
  "scanParenIdent p =
     do {
       ((tok, lit), p1) \<leftarrow> scanIgnoreWhitespace p;
       if tok \<noteq> OPEN_PAREN then Some ((ILLEGAL, lit), p1)
       else do {
         ((tok, lit), p2) \<leftarrow> scanIgnoreWhitespace p1;
         if tok = IDENT then
           do {
             ((tok1, lit1), p3) \<leftarrow> scanIgnoreWhitespace p2;
             if tok1 \<noteq> CLOSE_PAREN then Some ((ILLEGAL, lit @ lit1), p3)
             else Some ((tok, lit), p3)
           }
         else Some ((ILLEGAL, []), p2)
       }
     }"

definition scanPrimaryKey :: "Parser \<Rightarrow> string parsed" where
  "scanPrimaryKey p =
     do {
       ((tok1, lit1), p1) \<leftarrow> scanIgnoreWhitespace p;
       ((tok2, lit2), p2) \<leftarrow> scanIgnoreWhitespace p1;
       if tok1 \<noteq> PRIMARY \<or> tok2 \<noteq> KEY then
         Some (Inl (Errorf ''found %q, expected PRIMARY KEY'' [Arg_string (lit1 @ lit2)]))
       else do {
         ((tok, lit), p3) \<leftarrow> scanIgnoreWhitespace p2;
         if tok = OPEN_PAREN then
           do {
             ((tok, lit), p4) \<leftarrow> scanParenIdent (unscan p3);
             if tok \<noteq> IDENT then Some (Inl (Errorf ''found %q, expected ident'' [Arg_string lit]))
             else Some (Inr (lit, p4))
           }
         else do {
           ((tok, lit), p4) \<leftarrow> Parser_scanIdent p3;
           if tok \<noteq> IDENT then Some (Inl (Errorf ''found %q, expected ident'' [Arg_string lit]))
           else Some (Inr (lit, p4))
         }
       }
     }"

definition scanKey :: "Parser \<Rightarrow> (string \<times> string) parsed" where
  "scanKey p =
     do {
       ((tok, lit), p1) \<leftarrow> scanIgnoreWhitespace p;
       if tok \<noteq> KEY then Some (Inl (Errorf ''found %q, expected KEY'' [Arg_string lit]))
       else do {
         ((tok, lit), p2) \<leftarrow> scanIgnoreWhitespace p1;
         if tok \<noteq> IDENT then Some (Inl (Errorf ''found %q, expected index'' [Arg_string lit]))
         else do {
           let index = lit;
           ((tok, lit), p3) \<leftarrow> scanIgnoreWhitespace p2;
           if tok = IDENT then Some (Inr ((index, lit), p3))
           else if tok = OPEN_PAREN then
             do {
               ((tok, lit), p4) \<leftarrow> scanParenIdent (unscan p3);
               if tok \<noteq> IDENT then Some (Inl (Errorf ''found %q, expected '' [Arg_string lit]))
               else Some (Inr ((index, lit), p4))
             }
           else Some (Inl (Errorf ''found %q, expected ident'' [Arg_string lit]))
         }
       }
     }"

definition scanConstraint :: "Parser \<Rightarrow> Constraint parsed" where
  "scanConstraint p =
     do {
       ((tok, lit), p1) \<leftarrow> scanIgnoreWhitespace p;
       if tok \<noteq> CONSTRAINT then
         Some (Inl (Errorf ''found %q, expected CONSTRAINT'' [Arg_string lit]))
       else do {
         ((tok, index), p2) \<leftarrow> Parser_scanIdent p1;
         if tok \<noteq> IDENT then Some (Inl (Errorf ''found %q, expected ident'' [Arg_string index]))
         else do {
           ((tok1, lit1), p3) \<leftarrow> scanIgnoreWhitespace p2;
           ((tok2, lit2), p4) \<leftarrow> scanIgnoreWhitespace p3;
           if tok1 \<noteq> FOREIGN \<or> tok2 \<noteq> KEY then
             Some (Inl (Errorf ''found %q, expected FOREIGN KEY'' [Arg_string (lit1 @ lit2)]))
           else do {
             ((tok, foreignKey), p5) \<leftarrow> scanParenIdent p4;
             if tok \<noteq> IDENT then
               Some (Inl (Errorf ''found %q, expected ident'' [Arg_string foreignKey]))
             else do {
               ((tok, lit), p6) \<leftarrow> scanIgnoreWhitespace p5;
               if tok \<noteq> REFERENCES then
                 Some (Inl (Errorf ''found %q, expected REFERENCES'' [Arg_string lit]))
               else do {
                 ((tok, tableName), p7) \<leftarrow> Parser_scanIdent p6;
                 if tok \<noteq> IDENT then
                   Some (Inl (Errorf ''found %q, expected `table_name`'' [Arg_string tableName]))
                 else do {
                   ((tok, columnName), p8) \<leftarrow> scanParenIdent p7;
                   if tok \<noteq> IDENT then
                     Some (Inl (Errorf ''found %q, expected (`column_name`)''
                                  [Arg_string columnName]))
                   else Some (Inr (\<lparr>Index = index, ForeignKey = foreignKey,
                                     TableName = tableName, ColumnName = columnName\<rparr>, p8))
                 }
               }
             }
           }
         }
       }
     }"

definition scanKV :: "Parser \<Rightarrow> (string \<times> string) parsed" where
  "scanKV p =
     do {
       ((tok, lit), p1) \<leftarrow> scanIgnoreWhitespace p;
       ((tok1, lit1), p2) \<leftarrow> scanIgnoreWhitespace p1;
       ((tok2, lit2), p3) \<leftarrow> scanIgnoreWhitespace p2;
       if (tok \<noteq> IDENT \<and> tok \<noteq> AUTO_INCREMENT) \<or> tok1 \<noteq> EQUAL
          \<or> (tok2 \<noteq> IDENT \<and> tok2 \<noteq> STRING \<and> tok2 \<noteq> SIZE) then
         Some (Inl (Errorf ''found %q, expected key=value'' [Arg_string (lit @ lit1 @ lit2)]))
       else Some (Inr ((lit, lit2), p3))
     }"

text \<open>The loop of \<^verbatim>\<open>scanExtra\<close>, with the map built so far.\<close>

partial_function (option) scanExtra_loop :: "(string \<rightharpoonup> string) \<Rightarrow> Parser \<Rightarrow> (string \<rightharpoonup> string) parsed" where
  "scanExtra_loop extras p =
     do {
       ((tok, lit), p1) \<leftarrow> scanIgnoreWhitespace p;
       if tok \<noteq> SEMI_COLON then
         do {
           r \<leftarrow> scanKV (if tok \<noteq> DEFAULT then unscan p1 else p1);
           case r of
             Inl err \<Rightarrow> Some (Inl err)
           | Inr ((k, v), p2) \<Rightarrow> scanExtra_loop (extras(k \<mapsto> v)) p2
         }
       else Some (Inr (extras, unscan p1))
     }"

definition scanExtra :: "Parser \<Rightarrow> (string \<rightharpoonup> string) parsed" where
  "scanExtra p = scanExtra_loop Map.empty p"

subsection \<open>One table\<close>

text \<open>
  The inner loop of the first loop of \<^verbatim>\<open>parse\<close>, which skips a DROP, LOCK or UNLOCK
  statement: \<open>True\<close> when it left at a semicolon, \<open>False\<close> when it met the end of the
  input, where \<^verbatim>\<open>parse\<close> returns \<^verbatim>\<open>nil, nil\<close>.
\<close>

partial_function (option) parse_skip :: "Parser \<Rightarrow> (bool \<times> Parser) option" where
  "parse_skip p =
     do {
       ((tok, lit), p1) \<leftarrow> scanIgnoreWhitespace p;
       if tok = SEMI_COLON then Some (True, p1)
       else if tok = EOF then Some (False, p1)
       else parse_skip p1
     }"

text \<open>
  The first loop of \<^verbatim>\<open>parse\<close>: \<open>True\<close> when it left at CREATE, \<open>False\<close> where \<^verbatim>\<open>parse\<close>
  returns \<^verbatim>\<open>nil, nil\<close>.
\<close>

partial_function (option) parse_statements :: "Parser \<Rightarrow> bool parsed" where
  "parse_statements p =
     do {
       ((tok, lit), p1) \<leftarrow> scanIgnoreWhitespace p;
       if tok = DROP \<or> tok = LOCK \<or> tok = UNLOCK then
         do {
           (semi, p2) \<leftarrow> parse_skip p1;
           if semi then parse_statements p2 else Some (Inr (False, p2))
         }
       else if tok = SEMI_COLON \<or> tok = ANNOTATION then parse_statements p1
       else if tok = CREATE then Some (Inr (True, p1))
       else if tok = EOF then Some (Inr (False, p1))
       else Some (Inl (Errorf ''unexpected %v: %q'' [Arg_Token tok, Arg_string lit]))
     }"

text \<open>The second loop of \<^verbatim>\<open>parse\<close>, over the items of the table body.\<close>

partial_function (option) parse_items :: "Table \<Rightarrow> Parser \<Rightarrow> Table parsed" where
  "parse_items table p =
     do {
       ((tok, lit), p1) \<leftarrow> scanIgnoreWhitespace p;
       if tok = IDENT then
         do {
           r \<leftarrow> scanColumn (unscan p1);
           case r of
             Inl err \<Rightarrow> Some (Inl err)
           | Inr (col, p2) \<Rightarrow>
               parse_items (table\<lparr>Columns := (Columns table)(Column.Name col \<mapsto> col)\<rparr>) p2
         }
       else if tok = PRIMARY then
         do {
           r \<leftarrow> scanPrimaryKey (unscan p1);
           case r of
             Inl err \<Rightarrow> Some (Inl err)
           | Inr (key, p2) \<Rightarrow> parse_items (table\<lparr>PrimaryKey := key\<rparr>) p2
         }
       else if tok = UNIQUE then
         do {
           r \<leftarrow> scanKey p1;
           case r of
             Inl err \<Rightarrow> Some (Inl err)
           | Inr ((k, v), p2) \<Rightarrow>
               parse_items (table\<lparr>UniqueKeys := (UniqueKeys table)(k \<mapsto> v)\<rparr>) p2
         }
       else if tok = KEY then
         do {
           r \<leftarrow> scanKey (unscan p1);
           case r of
             Inl err \<Rightarrow> Some (Inl err)
           | Inr ((index, col), p2) \<Rightarrow>
               parse_items (table\<lparr>Keys := (Keys table)(index \<mapsto> col)\<rparr>) p2
         }
       else if tok = CONSTRAINT then
         do {
           r \<leftarrow> scanConstraint (unscan p1);
           case r of
             Inl err \<Rightarrow> Some (Inl err)
           | Inr (cos, p2) \<Rightarrow>
               parse_items (table\<lparr>Constraints := (Constraints table)(ForeignKey cos \<mapsto> cos)\<rparr>) p2
         }
       else if tok = CLOSE_PAREN then
         do {
           ((tok, lit), p2) \<leftarrow> scanIgnoreWhitespace p1;
           if tok \<noteq> SEMI_COLON then
             do {
               r \<leftarrow> scanExtra (unscan p2);
               case r of
                 Inl err \<Rightarrow> Some (Inl err)
               | Inr (extras, p3) \<Rightarrow> Some (Inr (table\<lparr>Extras := extras\<rparr>, p3))
             }
           else Some (Inr (table, p2))
         }
       else if tok = COMMA then parse_items table p1
       else if tok = SEMI_COLON then Some (Inr (table, p1))
       else Some (Inl (Errorf ''found %q, expected ident or primary or unique or key or constraint''
                         [Arg_string lit]))
     }"

text \<open>The table \<^verbatim>\<open>parse\<close> starts from: empty maps, zero values elsewhere.\<close>

definition Table_new :: Table where
  "Table_new = \<lparr>Table.Name = [], Columns = Map.empty, PrimaryKey = [], UniqueKeys = Map.empty,
                 Keys = Map.empty, Constraints = Map.empty, Extras = Map.empty\<rparr>"

text \<open>\<^verbatim>\<open>parse\<close> returns a table, or no table (\<^verbatim>\<open>nil, nil\<close>) at the end of the input, or an error.\<close>

definition parse :: "Parser \<Rightarrow> Table option parsed" where
  "parse p =
     do {
       r \<leftarrow> parse_statements p;
       case r of
         Inl err \<Rightarrow> Some (Inl err)
       | Inr (create, p1) \<Rightarrow>
           if \<not> create then Some (Inr (None, p1))
           else do {
             ((tok, lit), p2) \<leftarrow> scanIgnoreWhitespace p1;
             if tok \<noteq> TABLE then
               Some (Inl (Errorf ''found CREATE %q, expected CREATE TABLE'' [Arg_string lit]))
             else do {
               ((tok, lit), p3) \<leftarrow> Parser_scanIdent p2;
               if tok \<noteq> IDENT then
                 Some (Inl (Errorf ''found CREATE TABLE %d %q, expected CREATE TABLE `ident`''
                              [Arg_Token tok, Arg_string lit]))
               else do {
                 let name = lit;
                 ((tok, lit), p4) \<leftarrow> scanIgnoreWhitespace p3;
                 if tok \<noteq> OPEN_PAREN then
                   Some (Inl (Errorf ''found %q, expected ('' [Arg_string lit]))
                 else do {
                   r \<leftarrow> parse_items (Table_new\<lparr>Table.Name := name\<rparr>) p4;
                   case r of
                     Inl err \<Rightarrow> Some (Inl err)
                   | Inr (table, p5) \<Rightarrow> Some (Inr (Some table, p5))
                 }
               }
             }
           }
     }"

subsection \<open>The whole input\<close>

text \<open>
  The loop of \<^verbatim>\<open>Parse\<close>, with the schema built so far. \<^verbatim>\<open>Parse\<close> returns the schema and
  the error, \<open>None\<close> for \<^verbatim>\<open>nil\<close>.
\<close>

partial_function (option) Parse_loop :: "Schema \<Rightarrow> Parser \<Rightarrow> (Schema \<times> error option) option" where
  "Parse_loop schema p =
     do {
       r \<leftarrow> parse p;
       case r of
         Inl err \<Rightarrow> Some (schema, Some err)
       | Inr (None, p1) \<Rightarrow> Some (schema, None)
       | Inr (Some table, p1) \<Rightarrow> Parse_loop (schema(Table.Name table \<mapsto> table)) p1
     }"

definition Parse :: "Parser \<Rightarrow> (Schema \<times> error option) option" where
  "Parse p = Parse_loop Map.empty p"

declare scanWhitespace_loop.simps [code] scanDigit_loop.simps [code] readString.simps [code]
  scanInlineComment.simps [code] scanIdent_loop.simps [code] Scan_comment_loop.simps [code]
  scanColumn_loop.simps [code] scanExtra_loop.simps [code] parse_skip.simps [code]
  parse_statements.simps [code] parse_items.simps [code] Parse_loop.simps [code]

section \<open>Notions used in the statements\<close>

subsection \<open>The tables parsed before a failure\<close>

text \<open>
  \<open>parses_then_fails p ts err\<close>: from the parser \<open>p\<close>, successive calls of \<^verbatim>\<open>parse\<close>
  return the tables \<open>ts\<close>, one after the other, and the next call returns the error \<open>err\<close>.
  \<open>Schema_of schema ts\<close> is \<open>schema\<close> after each table of \<open>ts\<close> was stored under its name,
  in this order, as \<^verbatim>\<open>schema[table.Name] = table\<close> does.
\<close>

fun parses_then_fails :: "Parser \<Rightarrow> Table list \<Rightarrow> error \<Rightarrow> bool" where
  "parses_then_fails p [] err \<longleftrightarrow> parse p = Some (Inl err)"
| "parses_then_fails p (t # ts) err \<longleftrightarrow>
     (case parse p of
        Some (Inr (Some t', p1)) \<Rightarrow> t' = t \<and> parses_then_fails p1 ts err
      | _ \<Rightarrow> False)"

definition Schema_of :: "Schema \<Rightarrow> Table list \<Rightarrow> Schema" where
  "Schema_of schema ts = foldl (\<lambda>sch t. sch(Table.Name t \<mapsto> t)) schema ts"

subsection \<open>The clauses of a column definition\<close>

text \<open>
  The clauses that may follow the type of a column. \<open>reads_clause c p\<close> is the parser after
  the clause \<open>c\<close> when the tokens at \<open>p\<close> form this clause, and \<open>reads_clauses cs p\<close> is the
  parser after the clauses \<open>cs\<close> and the COMMA or CLOSE_PAREN that ends the column, which
  is pushed back. \<open>nullable_after b cs\<close> is the nullability the clauses \<open>cs\<close> leave when it was
  \<open>b\<close> before them: the last NULL, NOT NULL or DEFAULT clause decides.
\<close>

datatype clause =
  Clause_DEFAULT string | Clause_NULL | Clause_NOT_NULL | Clause_COMMENT string
  | Clause_AUTO_INCREMENT

fun reads_clause :: "clause \<Rightarrow> Parser \<Rightarrow> Parser option" where
  "reads_clause (Clause_DEFAULT v) p =
     (case scanIgnoreWhitespace p of
        Some ((tok, lit), p1) \<Rightarrow>
          if tok = DEFAULT then
            (case scanDefault (unscan p1) of
               Some (Inr (val, p2)) \<Rightarrow> if val = v then Some p2 else None
             | _ \<Rightarrow> None)
          else None
      | None \<Rightarrow> None)"
| "reads_clause Clause_NULL p =
     (case scanIgnoreWhitespace p of
        Some ((tok, lit), p1) \<Rightarrow> if tok = NULL then Some p1 else None
      | None \<Rightarrow> None)"
| "reads_clause Clause_NOT_NULL p =
     (case scanIgnoreWhitespace p of
        Some ((tok, lit), p1) \<Rightarrow>
          if tok = NOT then
            (case scanIgnoreWhitespace p1 of
               Some ((tok1, lit1), p2) \<Rightarrow> if tok1 = NULL then Some p2 else None
             | None \<Rightarrow> None)
          else None
      | None \<Rightarrow> None)"
| "reads_clause (Clause_COMMENT c) p =
     (case scanIgnoreWhitespace p of
        Some ((tok, lit), p1) \<Rightarrow>
          if tok = COMMENT then
            (case scanIgnoreWhitespace p1 of
               Some ((tok1, lit1), p2) \<Rightarrow> if tok1 = STRING \<and> lit1 = c then Some p2 else None
             | None \<Rightarrow> None)
          else None
      | None \<Rightarrow> None)"
| "reads_clause Clause_AUTO_INCREMENT p =
     (case scanIgnoreWhitespace p of
        Some ((tok, lit), p1) \<Rightarrow> if tok = AUTO_INCREMENT then Some p1 else None
      | None \<Rightarrow> None)"

fun reads_clauses :: "clause list \<Rightarrow> Parser \<Rightarrow> Parser option" where
  "reads_clauses [] p =
     (case scanIgnoreWhitespace p of
        Some ((tok, lit), p1) \<Rightarrow>
          if tok = COMMA \<or> tok = CLOSE_PAREN then Some (unscan p1) else None
      | None \<Rightarrow> None)"
| "reads_clauses (c # cs) p =
     (case reads_clause c p of Some p1 \<Rightarrow> reads_clauses cs p1 | None \<Rightarrow> None)"

fun nullable_after :: "bool \<Rightarrow> clause list \<Rightarrow> bool" where
  "nullable_after b [] = b"
| "nullable_after b (Clause_DEFAULT v # cs) = nullable_after (v = ''null'') cs"
| "nullable_after b (Clause_NULL # cs) = nullable_after True cs"
| "nullable_after b (Clause_NOT_NULL # cs) = nullable_after False cs"
| "nullable_after b (Clause_COMMENT c # cs) = nullable_after b cs"
| "nullable_after b (Clause_AUTO_INCREMENT # cs) = nullable_after b cs"

subsection \<open>Inputs without an empty backtick-quoted identifier\<close>

text \<open>
  \<open>empty_backticks cs\<close>: two backticks follow each other somewhere in \<open>cs\<close>. The scanner is
  \<open>clean\<close> when this is not so for the input it can still read, the rune that can be unread
  included; the parser is \<open>ok\<close> when its scanner is clean and its pushback buffer does not
  hold an identifier with an empty literal.
\<close>

fun empty_backticks :: "string \<Rightarrow> bool" where
  "empty_backticks (a # b # cs) \<longleftrightarrow> (a = CHR 0x60 \<and> b = CHR 0x60) \<or> empty_backticks (b # cs)"
| "empty_backticks _ \<longleftrightarrow> False"

definition pending :: "Scanner \<Rightarrow> string" where
  "pending s = (case lastRune s of None \<Rightarrow> runes s | Some c \<Rightarrow> c # runes s)"

definition clean :: "Scanner \<Rightarrow> bool" where
  "clean s \<longleftrightarrow> \<not> empty_backticks (pending s)"

definition ok :: "Parser \<Rightarrow> bool" where
  "ok p \<longleftrightarrow> clean (scanner p) \<and> (buf_tok p = IDENT \<longrightarrow> buf_lit p \<noteq> [])"

section \<open>Evaluation and basic facts\<close>

text \<open>The equations that evaluate the scanner and the parser on a concrete input.\<close>

lemmas scan_defs =
  Scan_def read_def unread_def ReadRune_def UnreadRune_def isWhitespace_def isLetter_def
  isDigit_def eof_def Scanner_scanIdent_def scanIdent_loop.simps keyword_def ToUpper_def
  ToUpper_rune_def scanWhitespace_def scanWhitespace_loop.simps scanDigit_def
  scanDigit_loop.simps scanString_def readString.simps scanInlineComment.simps
  Scan_comment_loop.simps NewScanner_def

lemmas parse_defs =
  NewParser_def scan_def unscan_def scanIgnoreWhitespace_def Parser_scanIdent_def scanType_def
  scanDefault_def scanColumn_loop.simps scanColumn_def scanParenIdent_def scanPrimaryKey_def
  scanKey_def scanConstraint_def scanKV_def scanExtra_loop.simps scanExtra_def parse_skip.simps
  parse_statements.simps parse_items.simps parse_def Parse_loop.simps Parse_def Type_table_def
  Atoi_def digit_val_def Table_new_def Column_zero_def

text \<open>The token a scan returns is the token the pushback buffer holds, and nothing is pushed back.\<close>

lemma scan_buf:
  "scan p = Some ((tok, lit), p1) \<Longrightarrow> buf_tok p1 = tok \<and> buf_lit p1 = lit \<and> buf_n p1 = 0"
  by (auto simp: scan_def split: if_splits Option.bind_splits)

lemma scanIgnoreWhitespace_buf:
  "scanIgnoreWhitespace p = Some ((tok, lit), p1) \<Longrightarrow>
     buf_tok p1 = tok \<and> buf_lit p1 = lit \<and> buf_n p1 = 0"
  by (auto simp: scanIgnoreWhitespace_def split: if_splits Option.bind_splits dest: scan_buf)

lemma scan_unscan:
  "buf_tok p1 = tok \<Longrightarrow> buf_lit p1 = lit \<Longrightarrow> buf_n p1 = 0 \<Longrightarrow>
     scan (unscan p1) = Some ((tok, lit), p1)"
  by (simp add: scan_def unscan_def)

text \<open>A rule that pushes its first token back and scans again gets the same token.\<close>

lemma scanIgnoreWhitespace_unscan:
  assumes "scanIgnoreWhitespace p = Some ((tok, lit), p1)" and "tok \<noteq> WS" and "tok \<noteq> ANNOTATION"
  shows "scanIgnoreWhitespace (unscan p1) = Some ((tok, lit), p1)"
  using scanIgnoreWhitespace_buf [OF assms(1)] assms(2,3)
  by (simp add: scanIgnoreWhitespace_def scan_unscan)

text \<open>
  The parser test of the repository (\<^verbatim>\<open>TestParser\<close>) on the model: its input parses without
  an error into one table, \<^verbatim>\<open>user\<close>, with two columns, which is what the test checks.
\<close>

lemma TestParser_input:
  "Parse (NewParser (''--this is a comment'' @ [CHR 0x0A]
      @ ''DROP TABLE IF EXISTS `user`;'' @ [CHR 0x0A]
      @ ''/* this is another comment */;'' @ [CHR 0x0A]
      @ ''CREATE TABLE `user` ('' @ [CHR 0x0A]
      @ ''  `id` bigint(20) NOT NULL AUTO_INCREMENT,'' @ [CHR 0x0A]
      @ ''  `username` varchar(20) DEFAULT NULL'' @ [CHR 0x0A]
      @ '') ENGINE=InnoDB DEFAULT CHARSET=utf8;'')) =
   Some ([''user'' \<mapsto>
            \<lparr>Table.Name = ''user'',
             Columns = [''id'' \<mapsto> \<lparr>Column.Name = ''id'', Type = ''bigint'', Size = 20,
                                  Default = None, Comment = [], Nullable = False, AutoIncr = True\<rparr>,
                        ''username'' \<mapsto> \<lparr>Column.Name = ''username'', Type = ''varchar'', Size = 20,
                                  Default = Some ''null'', Comment = [], Nullable = True,
                                  AutoIncr = False\<rparr>],
             PrimaryKey = [], UniqueKeys = Map.empty, Keys = Map.empty, Constraints = Map.empty,
             Extras = [''ENGINE'' \<mapsto> ''InnoDB'', ''CHARSET'' \<mapsto> ''utf8'']\<rparr>],
         None)"
  by (simp add: scan_defs parse_defs)

section \<open>The line comment that never ends\<close>

lemma Scan_comment_loop_Some:
  "Scan_comment_loop s = Some y \<Longrightarrow> CHR 0x0A \<in> set (runes s)"
proof (induct rule: Scan_comment_loop.raw_induct [rotated 1, consumes 1, case_names step])
  case (step loop s y)
  from step(2) show ?case
    by (auto simp: read_def ReadRune_def eof_def split: list.splits if_splits dest: step(1))
qed

lemma Scan_comment_loop_None:
  "CHR 0x0A \<notin> set (runes s) \<Longrightarrow> Scan_comment_loop s = None"
  using Scan_comment_loop_Some [of s] by (cases "Scan_comment_loop s") auto

text \<open>
  Claim C5: when the unread input begins with \<^verbatim>\<open>--\<close> and holds no newline after it,
  \<^verbatim>\<open>Scan\<close> never returns: the comment loop leaves on a newline only and the end of the
  input gives it \<^verbatim>\<open>eof\<close> again and again.
\<close>

theorem Scan_line_comment_diverges:
  assumes "runes s = CHR ''-'' # CHR ''-'' # cs" and "CHR 0x0A \<notin> set cs"
  shows "Scan s = None"
proof -
  have "Scan s = Scan_comment_loop (s\<lparr>runes := cs, lastRune := Some (CHR ''-'')\<rparr>)"
    using assms(1)
    by (simp add: Scan_def read_def ReadRune_def isWhitespace_def isLetter_def isDigit_def eof_def)
  then show ?thesis using assms(2) by (simp add: Scan_comment_loop_None)
qed

theorem Scan_line_comment_diverges_witness:
  "runes (NewScanner ''-- the end'') = CHR ''-'' # CHR ''-'' # '' the end''
   \<and> CHR 0x0A \<notin> set '' the end''
   \<and> Scan (NewScanner ''-- the end'') = None"
  using Scan_line_comment_diverges [of "NewScanner ''-- the end''" "'' the end''"]
  by (simp add: NewScanner_def)

section \<open>Whitespace and comments before a token\<close>

text \<open>
  Claim C1: \<^verbatim>\<open>scanIgnoreWhitespace\<close> should return the first token that is neither WS nor
  ANNOTATION. It skips one such token only: after whitespace followed by a block comment it
  returns the ANNOTATION token of the comment.
\<close>

theorem scanIgnoreWhitespace_returns_ANNOTATION:
  "scanIgnoreWhitespace (NewParser '' /* c */x'') =
     Some ((ANNOTATION, []),
           \<lparr>scanner = \<lparr>runes = ''x'', lastRune = Some (CHR ''/'')\<rparr>,
            buf_tok = ANNOTATION, buf_lit = [], buf_n = 0\<rparr>)"
  by (simp add: scan_defs parse_defs)

text \<open>
  Claim C3: \<^verbatim>\<open>Parse\<close> should accept well-formed CREATE TABLE statements with comments
  between them. A block comment followed by a space before CREATE TABLE makes it fail: the
  comment is skipped and the whitespace after it reaches \<^verbatim>\<open>parse\<close>.
\<close>

theorem Parse_comment_then_space_fails:
  "Parse (NewParser ''/* c */ CREATE TABLE `t` (`id` int);'') =
     Some (Map.empty, Some (Errorf ''unexpected %v: %q'' [Arg_Token WS, Arg_string '' '']))"
  by (simp add: scan_defs parse_defs)

section \<open>Block comments\<close>

text \<open>
  Claim C6: a complete block comment should scan as ANNOTATION, the empty one included.
  The empty comment \<^verbatim>\<open>/**/\<close> scans as ILLEGAL: the rune after a star is dropped when it is not
  a slash, so the closing star is lost and the scan runs to the end of the input.
\<close>

theorem Scan_empty_block_comment_ILLEGAL:
  "Scan (NewScanner ''/**/'') = Some ((ILLEGAL, []), \<lparr>runes = [], lastRune = None\<rparr>)"
  by (simp add: scan_defs)

section \<open>The item list of a table\<close>

text \<open>
  Claim C4, as stated, fails: a semicolon where an item should start ends the table
  without an error.
\<close>

theorem parse_SEMI_COLON_in_items_counterexample:
  "parse (NewParser ''CREATE TABLE t (;x'') =
     Some (Inr (Some (Table_new\<lparr>Table.Name := ''t''\<rparr>),
                \<lparr>scanner = \<lparr>runes = ''x'', lastRune = Some (CHR '';'')\<rparr>,
                 buf_tok = SEMI_COLON, buf_lit = '';'', buf_n = 0\<rparr>))"
  by (simp add: scan_defs parse_defs)

text \<open>
  Claim C4, amended: in the item loop of \<^verbatim>\<open>parse\<close>, a leading token other than IDENT,
  PRIMARY, UNIQUE, KEY, CONSTRAINT, COMMA, CLOSE_PAREN and SEMI_COLON makes \<^verbatim>\<open>parse\<close>
  return the error that names the token's literal; a leading SEMI_COLON returns the table as
  built so far, with no error.
\<close>

theorem parse_items_other_token:
  assumes "scanIgnoreWhitespace p = Some ((tok, lit), p1)"
    and "tok \<notin> {IDENT, PRIMARY, UNIQUE, KEY, CONSTRAINT, COMMA, CLOSE_PAREN}"
  shows "parse_items table p =
           (if tok = SEMI_COLON then Some (Inr (table, p1))
            else Some (Inl (Errorf ''found %q, expected ident or primary or unique or key or constraint''
                              [Arg_string lit])))"
  using assms by (subst parse_items.simps) simp

theorem parse_items_other_token_witness:
  "parse_items Table_new (NewParser ''= x'') =
     Some (Inl (Errorf ''found %q, expected ident or primary or unique or key or constraint''
                  [Arg_string ''='']))"
proof -
  have tok: "scanIgnoreWhitespace (NewParser ''= x'') =
      Some ((EQUAL, ''=''),
            \<lparr>scanner = \<lparr>runes = '' x'', lastRune = Some (CHR ''='')\<rparr>,
             buf_tok = EQUAL, buf_lit = ''='', buf_n = 0\<rparr>)"
    by (simp add: scan_defs parse_defs)
  have other: "EQUAL \<notin> {IDENT, PRIMARY, UNIQUE, KEY, CONSTRAINT, COMMA, CLOSE_PAREN}"
    by simp
  show ?thesis using parse_items_other_token [OF tok other, of Table_new] by simp
qed

section \<open>The DEFAULT clause of a column\<close>

text \<open>
  Claim C9, as stated, fails: the quoted string \<^verbatim>\<open>'null'\<close> as a default sets Nullable to
  true, as DEFAULT NULL does.
\<close>

theorem scanColumn_DEFAULT_quoted_null_counterexample:
  "scanColumn (NewParser ''a int NOT NULL DEFAULT 'null','') =
     Some (Inr (\<lparr>Column.Name = ''a'', Type = ''int'', Size = 0, Default = Some ''null'',
                  Comment = [], Nullable = True, AutoIncr = False\<rparr>,
                \<lparr>scanner = \<lparr>runes = [], lastRune = Some (CHR '','')\<rparr>,
                 buf_tok = COMMA, buf_lit = '','', buf_n = 1\<rparr>))"
  by (simp add: scan_defs parse_defs)

text \<open>
  Claim C9, amended: a DEFAULT clause sets Nullable whatever it was before, so it overrides
  an earlier NULL or NOT NULL clause: to true for DEFAULT NULL and for the quoted string
  \<^verbatim>\<open>'null'\<close>, to false for CURRENT_TIMESTAMP and for any other quoted string. The clause
  loop goes on with the column so changed.
\<close>

theorem scanColumn_loop_DEFAULT:
  assumes "scanIgnoreWhitespace p = Some ((DEFAULT, lit), p1)"
    and "scanIgnoreWhitespace p1 = Some ((tok2, lit2), p2)"
  shows "scanColumn_loop column p =
           (if tok2 = NULL then
              scanColumn_loop (column\<lparr>Default := Some ''null'', Nullable := True\<rparr>) p2
            else if tok2 = CURRENT_TIMESTAMP then
              scanColumn_loop (column\<lparr>Default := Some ''current_timestamp'', Nullable := False\<rparr>) p2
            else if tok2 = STRING then
              scanColumn_loop (column\<lparr>Default := Some lit2, Nullable := (lit2 = ''null'')\<rparr>) p2
            else Some (Inl (Errorf ''found %q, expected NULL or value'' [Arg_string lit2])))"
proof -
  have "scanIgnoreWhitespace (unscan p1) = Some ((DEFAULT, lit), p1)"
    using assms(1) by (simp add: scanIgnoreWhitespace_unscan)
  then show ?thesis
    using assms by (subst scanColumn_loop.simps) (simp add: scanDefault_def)
qed

theorem scanColumn_loop_DEFAULT_witness:
  "scanColumn_loop (Column_zero\<lparr>Nullable := True\<rparr>) (NewParser ''DEFAULT 'x','') =
     Some (Inr (Column_zero\<lparr>Default := Some ''x'', Nullable := False\<rparr>,
                \<lparr>scanner = \<lparr>runes = [], lastRune = Some (CHR '','')\<rparr>,
                 buf_tok = COMMA, buf_lit = '','', buf_n = 1\<rparr>))"
proof -
  have first: "scanIgnoreWhitespace (NewParser ''DEFAULT 'x','') =
      Some ((DEFAULT, ''DEFAULT''),
            \<lparr>scanner = \<lparr>runes = '' 'x','', lastRune = None\<rparr>,
             buf_tok = DEFAULT, buf_lit = ''DEFAULT'', buf_n = 0\<rparr>)"
    by (simp add: scan_defs parse_defs)
  have second: "scanIgnoreWhitespace
        \<lparr>scanner = \<lparr>runes = '' 'x','', lastRune = None\<rparr>,
         buf_tok = DEFAULT, buf_lit = ''DEFAULT'', buf_n = 0\<rparr> =
      Some ((STRING, ''x''),
            \<lparr>scanner = \<lparr>runes = '','', lastRune = Some (CHR 0x27)\<rparr>,
             buf_tok = STRING, buf_lit = ''x'', buf_n = 0\<rparr>)"
    by (simp add: scan_defs parse_defs)
  have rest: "scanColumn_loop (Column_zero\<lparr>Default := Some ''x'', Nullable := False\<rparr>)
        \<lparr>scanner = \<lparr>runes = '','', lastRune = Some (CHR 0x27)\<rparr>,
         buf_tok = STRING, buf_lit = ''x'', buf_n = 0\<rparr> =
      Some (Inr (Column_zero\<lparr>Default := Some ''x'', Nullable := False\<rparr>,
                 \<lparr>scanner = \<lparr>runes = [], lastRune = Some (CHR '','')\<rparr>,
                  buf_tok = COMMA, buf_lit = '','', buf_n = 1\<rparr>))"
    by (simp add: scan_defs parse_defs)
  show ?thesis
    using scanColumn_loop_DEFAULT [OF first second, of "Column_zero\<lparr>Nullable := True\<rparr>"] rest
    by simp
qed

section \<open>Nullability of a column\<close>

text \<open>
  Claim C2, as stated, fails: a column definition with no clause at all has Nullable false.
\<close>

theorem scanColumn_no_clause_counterexample:
  "scanColumn (NewParser ''`id` int,'') =
     Some (Inr (\<lparr>Column.Name = ''id'', Type = ''int'', Size = 0, Default = None,
                  Comment = [], Nullable = False, AutoIncr = False\<rparr>,
                \<lparr>scanner = \<lparr>runes = [], lastRune = Some (CHR '','')\<rparr>,
                 buf_tok = COMMA, buf_lit = '','', buf_n = 1\<rparr>))"
  by (simp add: scan_defs parse_defs)

lemma scanColumn_loop_clauses:
  "scanColumn_loop column p = Some y \<Longrightarrow> y = Inr (column', p') \<Longrightarrow>
     \<exists>cs. reads_clauses cs p = Some p' \<and> Nullable column' = nullable_after (Nullable column) cs"
proof (induct arbitrary: column' p' rule: scanColumn_loop.raw_induct [rotated 1, consumes 1, case_names step])
  case (step loop column p y)
  from step(2) obtain tok lit p1 where first: "scanIgnoreWhitespace p = Some ((tok, lit), p1)"
    by (auto split: Option.bind_splits)
  note body = step(2) [unfolded first, simplified]
  consider (default) "tok = DEFAULT" | (null) "tok = NULL" | (not) "tok = NOT"
    | (comment) "tok = COMMENT" | (auto_incr) "tok = AUTO_INCREMENT"
    | (finish) "tok = COMMA \<or> tok = CLOSE_PAREN"
    | (other) "tok \<notin> {DEFAULT, NULL, NOT, COMMENT, AUTO_INCREMENT, COMMA, CLOSE_PAREN}"
    by auto
  then show ?case
  proof cases
    case default
    with body step(3) obtain val p2 where
      d: "scanDefault (unscan p1) = Some (Inr (val, p2))"
      and l: "loop (column\<lparr>Default := Some val, Nullable := (val = ''null'')\<rparr>) p2 = Some y"
      by (auto split: Option.bind_splits sum.splits)
    from step(1) [OF l step(3)] obtain cs where
      "reads_clauses cs p2 = Some p'" "Nullable column' = nullable_after (val = ''null'') cs"
      by auto
    with first default d
    have "reads_clauses (Clause_DEFAULT val # cs) p = Some p'
        \<and> Nullable column' = nullable_after (Nullable column) (Clause_DEFAULT val # cs)"
      by simp
    then show ?thesis by blast
  next
    case null
    with body have l: "loop (column\<lparr>Nullable := True\<rparr>) p1 = Some y" by simp
    from step(1) [OF l step(3)] obtain cs where
      "reads_clauses cs p1 = Some p'" "Nullable column' = nullable_after True cs"
      by auto
    with first null
    have "reads_clauses (Clause_NULL # cs) p = Some p'
        \<and> Nullable column' = nullable_after (Nullable column) (Clause_NULL # cs)"
      by simp
    then show ?thesis by blast
  next
    case not
    with body step(3) obtain lit1 p2 where
      n: "scanIgnoreWhitespace p1 = Some ((NULL, lit1), p2)"
      and l: "loop (column\<lparr>Nullable := False\<rparr>) p2 = Some y"
      by (auto split: Option.bind_splits if_splits)
    from step(1) [OF l step(3)] obtain cs where
      "reads_clauses cs p2 = Some p'" "Nullable column' = nullable_after False cs"
      by auto
    with first not n
    have "reads_clauses (Clause_NOT_NULL # cs) p = Some p'
        \<and> Nullable column' = nullable_after (Nullable column) (Clause_NOT_NULL # cs)"
      by simp
    then show ?thesis by blast
  next
    case comment
    with body step(3) obtain lit1 p2 where
      n: "scanIgnoreWhitespace p1 = Some ((STRING, lit1), p2)"
      and l: "loop (column\<lparr>Comment := lit1\<rparr>) p2 = Some y"
      by (auto split: Option.bind_splits if_splits)
    from step(1) [OF l step(3)] obtain cs where
      "reads_clauses cs p2 = Some p'" "Nullable column' = nullable_after (Nullable column) cs"
      by auto
    with first comment n
    have "reads_clauses (Clause_COMMENT lit1 # cs) p = Some p'
        \<and> Nullable column' = nullable_after (Nullable column) (Clause_COMMENT lit1 # cs)"
      by simp
    then show ?thesis by blast
  next
    case auto_incr
    with body have l: "loop (column\<lparr>AutoIncr := True\<rparr>) p1 = Some y" by simp
    from step(1) [OF l step(3)] obtain cs where
      "reads_clauses cs p1 = Some p'" "Nullable column' = nullable_after (Nullable column) cs"
      by auto
    with first auto_incr
    have "reads_clauses (Clause_AUTO_INCREMENT # cs) p = Some p'
        \<and> Nullable column' = nullable_after (Nullable column) (Clause_AUTO_INCREMENT # cs)"
      by simp
    then show ?thesis by blast
  next
    case finish
    with body step(3) have "column' = column" "p' = unscan p1" by auto
    with first finish
    have "reads_clauses [] p = Some p' \<and> Nullable column' = nullable_after (Nullable column) []"
      by auto
    then show ?thesis by blast
  next
    case other
    with body step(3) show ?thesis by (auto split: if_splits)
  qed
qed

text \<open>
  Claim C2, amended: Nullable is false by default. A column that \<^verbatim>\<open>scanColumn\<close> returns
  was read as a name, a type and clauses \<open>cs\<close> up to a COMMA or CLOSE_PAREN, and its
  Nullable flag is \<open>nullable_after False cs\<close>: false when no clause was seen or none of them
  is NULL, NOT NULL or DEFAULT, and otherwise what the last of these set, which is true
  for NULL and for a default that is the null marker, false for NOT NULL and for any other
  default.
\<close>

theorem scanColumn_Nullable:
  assumes "scanColumn p = Some (Inr (column, p'))"
  shows "\<exists>name t sz p1 p2 cs.
           Parser_scanIdent p = Some ((IDENT, name), p1)
           \<and> scanType p1 = Some (Inr ((t, sz), p2))
           \<and> reads_clauses cs p2 = Some p'
           \<and> Nullable column = nullable_after False cs"
proof -
  from assms obtain name p1 t sz p2 where
    i: "Parser_scanIdent p = Some ((IDENT, name), p1)"
    and ty: "scanType p1 = Some (Inr ((t, sz), p2))"
    and l: "scanColumn_loop (Column_zero\<lparr>Column.Name := name, Type := t, Size := sz\<rparr>) p2
              = Some (Inr (column, p'))"
    by (auto simp: scanColumn_def split: Option.bind_splits if_splits sum.splits)
  from scanColumn_loop_clauses [OF l refl] obtain cs where
    "reads_clauses cs p2 = Some p'" "Nullable column = nullable_after False cs"
    by (auto simp: Column_zero_def)
  with i ty show ?thesis by blast
qed

theorem scanColumn_Nullable_witness:
  "scanColumn (NewParser ''a int DEFAULT NULL NOT NULL,'') =
     Some (Inr (\<lparr>Column.Name = ''a'', Type = ''int'', Size = 0, Default = Some ''null'',
                  Comment = [], Nullable = False, AutoIncr = False\<rparr>,
                \<lparr>scanner = \<lparr>runes = [], lastRune = Some (CHR '','')\<rparr>,
                 buf_tok = COMMA, buf_lit = '','', buf_n = 1\<rparr>))
   \<and> (\<exists>name t sz p1 p2 cs.
         Parser_scanIdent (NewParser ''a int DEFAULT NULL NOT NULL,'') = Some ((IDENT, name), p1)
         \<and> scanType p1 = Some (Inr ((t, sz), p2))
         \<and> reads_clauses cs p2 =
             Some \<lparr>scanner = \<lparr>runes = [], lastRune = Some (CHR '','')\<rparr>,
                   buf_tok = COMMA, buf_lit = '','', buf_n = 1\<rparr>
         \<and> Nullable \<lparr>Column.Name = ''a'', Type = ''int'', Size = 0, Default = Some ''null'',
                       Comment = [], Nullable = False, AutoIncr = False\<rparr>
             = nullable_after False cs)"
proof -
  have run: "scanColumn (NewParser ''a int DEFAULT NULL NOT NULL,'') =
      Some (Inr (\<lparr>Column.Name = ''a'', Type = ''int'', Size = 0, Default = Some ''null'',
                   Comment = [], Nullable = False, AutoIncr = False\<rparr>,
                 \<lparr>scanner = \<lparr>runes = [], lastRune = Some (CHR '','')\<rparr>,
                  buf_tok = COMMA, buf_lit = '','', buf_n = 1\<rparr>))"
    by (simp add: scan_defs parse_defs)
  show ?thesis by (intro conjI run scanColumn_Nullable [OF run])
qed

section \<open>The schema returned with an error\<close>

text \<open>
  Claim C7, as stated, fails: a table fully parsed before the failure is not in the
  returned schema when a later table of the input has the same name. Here the first
  statement gives the table \<^verbatim>\<open>t\<close> with the column \<^verbatim>\<open>a\<close>, and the schema returned with the
  error holds under \<^verbatim>\<open>t\<close> the table with the column \<^verbatim>\<open>b\<close>.
\<close>

theorem Parse_same_name_counterexample:
  "parse (NewParser ''CREATE TABLE t (a int);CREATE TABLE t (b int);x'') =
     Some (Inr (Some (Table_new\<lparr>Table.Name := ''t'',
                        Columns := [''a'' \<mapsto> Column_zero\<lparr>Column.Name := ''a'', Type := ''int''\<rparr>]\<rparr>),
                \<lparr>scanner = \<lparr>runes = ''CREATE TABLE t (b int);x'', lastRune = Some (CHR '';'')\<rparr>,
                 buf_tok = SEMI_COLON, buf_lit = '';'', buf_n = 0\<rparr>))
   \<and> Parse (NewParser ''CREATE TABLE t (a int);CREATE TABLE t (b int);x'') =
       Some ([''t'' \<mapsto> Table_new\<lparr>Table.Name := ''t'',
                Columns := [''b'' \<mapsto> Column_zero\<lparr>Column.Name := ''b'', Type := ''int''\<rparr>]\<rparr>],
             Some (Errorf ''unexpected %v: %q'' [Arg_Token IDENT, Arg_string ''x'']))
   \<and> Columns (Table_new\<lparr>Table.Name := ''t'',
                Columns := [''b'' \<mapsto> Column_zero\<lparr>Column.Name := ''b'', Type := ''int''\<rparr>]\<rparr>) ''a''
       = None"
  by (simp add: scan_defs parse_defs)

lemma Schema_of_Nil [simp]: "Schema_of schema [] = schema"
  by (simp add: Schema_of_def)

lemma Schema_of_Cons [simp]:
  "Schema_of schema (t # ts) = Schema_of (schema(Table.Name t \<mapsto> t)) ts"
  by (simp add: Schema_of_def)

lemma Schema_of_entry:
  "Schema_of schema ts n = Some t \<Longrightarrow> (t \<in> set ts \<and> Table.Name t = n) \<or> schema n = Some t"
proof (induction ts arbitrary: schema)
  case Nil
  then show ?case by simp
next
  case (Cons a ts)
  from Cons.prems have "Schema_of (schema(Table.Name a \<mapsto> a)) ts n = Some t" by simp
  from Cons.IH [OF this] show ?case by (auto split: if_splits)
qed

lemma Schema_of_other:
  "n \<notin> Table.Name ` set ts \<Longrightarrow> Schema_of schema ts n = schema n"
  by (induction ts arbitrary: schema) auto

lemma Schema_of_distinct:
  "distinct (map Table.Name ts) \<Longrightarrow> t \<in> set ts \<Longrightarrow> Schema_of schema ts (Table.Name t) = Some t"
  by (induction ts arbitrary: schema) (auto simp: Schema_of_other)

lemma Parse_loop_error:
  "Parse_loop sch p = Some y \<Longrightarrow> y = (schema, Some err) \<Longrightarrow>
     \<exists>ts. parses_then_fails p ts err \<and> schema = Schema_of sch ts"
proof (induct arbitrary: schema err rule: Parse_loop.raw_induct [rotated 1, consumes 1, case_names step])
  case (step loop sch p y)
  show ?case
  proof (cases "parse p")
    case None
    with step(2) show ?thesis by simp
  next
    case (Some r)
    show ?thesis
    proof (cases r)
      case (Inl e)
      with Some step(2,3) have "parses_then_fails p [] err \<and> schema = Schema_of sch []" by simp
      then show ?thesis by blast
    next
      case (Inr tp)
      obtain t p1 where tp: "tp = (t, p1)" by (cases tp)
      show ?thesis
      proof (cases t)
        case None
        with Some Inr tp step(2,3) show ?thesis by simp
      next
        case (Some table)
        with \<open>parse p = Some r\<close> Inr tp step(2)
        have "loop (sch(Table.Name table \<mapsto> table)) p1 = Some y" by simp
        from step(1) [OF this step(3)] obtain ts where
          "parses_then_fails p1 ts err" "schema = Schema_of (sch(Table.Name table \<mapsto> table)) ts"
          by blast
        with \<open>parse p = Some r\<close> Inr tp Some
        have "parses_then_fails p (table # ts) err \<and> schema = Schema_of sch (table # ts)" by simp
        then show ?thesis by blast
      qed
    qed
  qed
qed

text \<open>
  Claim C7, amended: when \<^verbatim>\<open>Parse\<close> returns an error, the schema it returns with it is
  the schema built from the tables \<open>ts\<close> that \<^verbatim>\<open>parse\<close> returned before the call that
  failed, each stored under its name in the order parsed. Every entry of the schema is one
  of these tables, so the failed statement adds nothing; and every one of these tables is
  in the schema when their names are distinct, while of two tables with one name only the
  later one is.
\<close>

theorem Parse_error_schema:
  assumes "Parse p = Some (schema, Some err)"
  shows "\<exists>ts. parses_then_fails p ts err
           \<and> schema = Schema_of Map.empty ts
           \<and> (\<forall>n t. schema n = Some t \<longrightarrow> t \<in> set ts \<and> Table.Name t = n)
           \<and> (distinct (map Table.Name ts) \<longrightarrow> (\<forall>t\<in>set ts. schema (Table.Name t) = Some t))"
proof -
  from assms obtain ts where ts: "parses_then_fails p ts err" "schema = Schema_of Map.empty ts"
    unfolding Parse_def using Parse_loop_error by blast
  have "\<forall>n t. schema n = Some t \<longrightarrow> t \<in> set ts \<and> Table.Name t = n"
    using Schema_of_entry [of Map.empty ts] ts(2) by auto
  moreover have "distinct (map Table.Name ts) \<longrightarrow> (\<forall>t\<in>set ts. schema (Table.Name t) = Some t)"
    using Schema_of_distinct ts(2) by blast
  ultimately show ?thesis using ts by blast
qed


theorem Parse_error_schema_witness:
  "Parse (NewParser ''CREATE TABLE t (a int);x'') =
     Some ([''t'' \<mapsto> Table_new\<lparr>Table.Name := ''t'',
              Columns := [''a'' \<mapsto> Column_zero\<lparr>Column.Name := ''a'', Type := ''int''\<rparr>]\<rparr>],
           Some (Errorf ''unexpected %v: %q'' [Arg_Token IDENT, Arg_string ''x'']))
   \<and> (\<exists>ts. parses_then_fails (NewParser ''CREATE TABLE t (a int);x'') ts
              (Errorf ''unexpected %v: %q'' [Arg_Token IDENT, Arg_string ''x''])
         \<and> [''t'' \<mapsto> Table_new\<lparr>Table.Name := ''t'',
               Columns := [''a'' \<mapsto> Column_zero\<lparr>Column.Name := ''a'', Type := ''int''\<rparr>]\<rparr>]
             = Schema_of Map.empty ts
         \<and> (\<forall>n t. [''t'' \<mapsto> Table_new\<lparr>Table.Name := ''t'',
                      Columns := [''a'' \<mapsto> Column_zero\<lparr>Column.Name := ''a'', Type := ''int''\<rparr>]\<rparr>] n
                    = Some t \<longrightarrow> t \<in> set ts \<and> Table.Name t = n)
         \<and> (distinct (map Table.Name ts) \<longrightarrow>
              (\<forall>t\<in>set ts. [''t'' \<mapsto> Table_new\<lparr>Table.Name := ''t'',
                      Columns := [''a'' \<mapsto> Column_zero\<lparr>Column.Name := ''a'', Type := ''int''\<rparr>]\<rparr>]
                    (Table.Name t) = Some t)))"
proof -
  have run: "Parse (NewParser ''CREATE TABLE t (a int);x'') =
      Some ([''t'' \<mapsto> Table_new\<lparr>Table.Name := ''t'',
               Columns := [''a'' \<mapsto> Column_zero\<lparr>Column.Name := ''a'', Type := ''int''\<rparr>]\<rparr>],
            Some (Errorf ''unexpected %v: %q'' [Arg_Token IDENT, Arg_string ''x'']))"
    by (simp add: scan_defs parse_defs)
  show ?thesis by (intro conjI run Parse_error_schema [OF run])
qed

section \<open>Column names\<close>

text \<open>
  Claim C8, as stated, fails: the empty backtick-quoted identifier is an IDENT token with
  the empty literal, and \<^verbatim>\<open>parse\<close> stores the column under it.
\<close>

theorem Parse_empty_column_name_counterexample:
  "Parse (NewParser ''CREATE TABLE t (`` int);'') =
     Some ([''t'' \<mapsto> Table_new\<lparr>Table.Name := ''t'',
              Columns := [[] \<mapsto> Column_zero\<lparr>Type := ''int''\<rparr>]\<rparr>],
           None)"
  by (simp add: scan_defs parse_defs)

text \<open>
  The scanner stays clean, and an identifier it returns from a clean state has a literal
  that is not empty.
\<close>

lemma empty_backticks_tl: "\<not> empty_backticks (c # cs) \<Longrightarrow> \<not> empty_backticks cs"
  by (cases cs) auto

lemma clean_read: "clean s \<Longrightarrow> read s = (ch, s1) \<Longrightarrow> clean s1"
  by (cases "runes s"; cases "lastRune s")
     (auto simp: clean_def pending_def read_def ReadRune_def dest: empty_backticks_tl)

lemma clean_unread: "clean s \<Longrightarrow> clean (unread s)"
  by (cases "lastRune s") (auto simp: clean_def pending_def unread_def UnreadRune_def)

lemma read_backtick:
  "clean s \<Longrightarrow> lastRune s = Some (CHR 0x60) \<Longrightarrow> read s = (ch, s1) \<Longrightarrow> ch \<noteq> CHR 0x60"
  by (cases "runes s") (auto simp: clean_def pending_def read_def ReadRune_def eof_def)

lemma read_lastRune: "read s = (ch, s1) \<Longrightarrow> ch \<noteq> eof \<Longrightarrow> lastRune s1 = Some ch"
  by (cases "runes s") (auto simp: read_def ReadRune_def)

lemma scanWhitespace_loop_clean:
  "scanWhitespace_loop buf s = Some y \<Longrightarrow> clean s \<Longrightarrow> y = ((tok, lit), s') \<Longrightarrow> clean s' \<and> tok = WS"
proof (induct arbitrary: tok lit s' rule: scanWhitespace_loop.raw_induct [rotated 1, consumes 1, case_names step])
  case (step loop buf s y)
  obtain ch s1 where r: "read s = (ch, s1)" by (cases "read s")
  have c1: "clean s1" using clean_read [OF step(3) r] .
  have go: "loop (buf @ [ch]) s1 = Some y \<Longrightarrow> ?case"
    using step(1) [OF _ c1 step(4)] by blast
  have stop: "y = ((WS, buf), s1) \<or> y = ((WS, buf), unread s1) \<Longrightarrow> ?case"
    using step(4) c1 clean_unread [OF c1] by auto
  from r step(2)
  have "loop (buf @ [ch]) s1 = Some y \<or> y = ((WS, buf), s1) \<or> y = ((WS, buf), unread s1)"
    by (auto split: if_splits)
  with go stop show ?case by blast
qed

lemma scanDigit_loop_clean:
  "scanDigit_loop buf s = Some y \<Longrightarrow> clean s \<Longrightarrow> y = ((tok, lit), s') \<Longrightarrow> clean s' \<and> tok = SIZE"
proof (induct arbitrary: tok lit s' rule: scanDigit_loop.raw_induct [rotated 1, consumes 1, case_names step])
  case (step loop buf s y)
  obtain ch s1 where r: "read s = (ch, s1)" by (cases "read s")
  have c1: "clean s1" using clean_read [OF step(3) r] .
  have go: "loop (buf @ [ch]) s1 = Some y \<Longrightarrow> ?case"
    using step(1) [OF _ c1 step(4)] by blast
  have stop: "y = ((SIZE, buf), s1) \<or> y = ((SIZE, buf), unread s1) \<Longrightarrow> ?case"
    using step(4) c1 clean_unread [OF c1] by auto
  from r step(2)
  have "loop (buf @ [ch]) s1 = Some y \<or> y = ((SIZE, buf), s1) \<or> y = ((SIZE, buf), unread s1)"
    by (auto split: if_splits)
  with go stop show ?case by blast
qed

lemma scanIdent_loop_clean:
  "scanIdent_loop buf s = Some y \<Longrightarrow> clean s \<Longrightarrow> buf \<noteq> [] \<Longrightarrow> y = ((tok, lit), s') \<Longrightarrow>
     clean s' \<and> lit \<noteq> []"
proof (induct arbitrary: tok lit s' rule: scanIdent_loop.raw_induct [rotated 1, consumes 1, case_names step])
  case (step loop buf s y)
  obtain ch s1 where r: "read s = (ch, s1)" by (cases "read s")
  have c1: "clean s1" using clean_read [OF step(3) r] .
  have ne: "buf @ [ch] \<noteq> []" by simp
  have go: "loop (buf @ [ch]) s1 = Some y \<Longrightarrow> ?case"
    using step(1) [OF _ c1 ne step(5)] by blast
  have stop: "y = ((keyword (ToUpper buf), buf), s1)
      \<or> y = ((keyword (ToUpper buf), buf), unread s1) \<Longrightarrow> ?case"
    using step(4,5) c1 clean_unread [OF c1] by auto
  from r step(2)
  have "loop (buf @ [ch]) s1 = Some y \<or> y = ((keyword (ToUpper buf), buf), s1)
      \<or> y = ((keyword (ToUpper buf), buf), unread s1)"
    by (auto split: if_splits)
  with go stop show ?case by blast
qed

lemma scanInlineComment_clean:
  "scanInlineComment s = Some y \<Longrightarrow> clean s \<Longrightarrow> y = ((tok, lit), s') \<Longrightarrow> clean s' \<and> tok \<noteq> IDENT"
proof (induct arbitrary: tok lit s' rule: scanInlineComment.raw_induct [rotated 1, consumes 1, case_names step])
  case (step loop s y)
  obtain ch s1 where r: "read s = (ch, s1)" by (cases "read s")
  obtain c s2 where r2: "read s1 = (c, s2)" by (cases "read s1")
  have c1: "clean s1" using clean_read [OF step(3) r] .
  have c2: "clean s2" using clean_read [OF c1 r2] .
  have go1: "loop s1 = Some y \<Longrightarrow> ?case"
    using step(1) [OF _ c1 step(4)] by blast
  have go2: "loop s2 = Some y \<Longrightarrow> ?case"
    using step(1) [OF _ c2 step(4)] by blast
  have stop: "y = ((ILLEGAL, []), s1) \<or> y = ((ANNOTATION, []), s2) \<Longrightarrow> ?case"
    using step(4) c1 c2 by auto
  from r r2 step(2)
  have "loop s1 = Some y \<or> loop s2 = Some y \<or> y = ((ILLEGAL, []), s1) \<or> y = ((ANNOTATION, []), s2)"
    by (auto split: if_splits)
  with go1 go2 stop show ?case by blast
qed

lemma Scan_comment_loop_clean:
  "Scan_comment_loop s = Some y \<Longrightarrow> clean s \<Longrightarrow> y = ((tok, lit), s') \<Longrightarrow> clean s' \<and> tok \<noteq> IDENT"
proof (induct arbitrary: tok lit s' rule: Scan_comment_loop.raw_induct [rotated 1, consumes 1, case_names step])
  case (step loop s y)
  obtain ch s1 where r: "read s = (ch, s1)" by (cases "read s")
  have c1: "clean s1" using clean_read [OF step(3) r] .
  have go: "loop s1 = Some y \<Longrightarrow> ?case"
    using step(1) [OF _ c1 step(4)] by blast
  have stop: "y = ((ANNOTATION, []), s1) \<Longrightarrow> ?case"
    using step(4) c1 by auto
  from r step(2) have "loop s1 = Some y \<or> y = ((ANNOTATION, []), s1)"
    by (auto split: if_splits)
  with go stop show ?case by blast
qed

lemma readString_clean:
  "readString c buf s = Some y \<Longrightarrow> clean s \<Longrightarrow> y = (lit, s') \<Longrightarrow>
     clean s' \<and> (buf \<noteq> [] \<longrightarrow> lit \<noteq> [])"
proof (induct arbitrary: lit s' rule: readString.raw_induct [rotated 1, consumes 1, case_names step])
  case (step loop c buf s y)
  obtain ch s1 where r: "read s = (ch, s1)" by (cases "read s")
  have c1: "clean s1" using clean_read [OF step(3) r] .
  have go: ?case if l: "loop c (buf @ [ch]) s1 = Some y"
    using step(1) [OF l c1 step(4)] by simp
  have stop: "y = (buf, s1) \<Longrightarrow> ?case"
    using step(4) c1 by auto
  from r step(2) have "loop c (buf @ [ch]) s1 = Some y \<or> y = (buf, s1)"
    by (auto split: if_splits)
  with go stop show ?case by blast
qed

lemma readString_backtick:
  assumes "readString (CHR 0x60) [] s = Some (lit, s')" and "clean s"
    and "lastRune s = Some (CHR 0x60)"
  shows "clean s' \<and> lit \<noteq> []"
proof -
  obtain ch s1 where r: "read s = (ch, s1)" by (cases "read s")
  have "ch \<noteq> CHR 0x60" using read_backtick [OF assms(2,3) r] .
  with assms(1) r have "readString (CHR 0x60) [ch] s1 = Some (lit, s')"
    by (subst (asm) readString.simps) simp
  from readString_clean [OF this clean_read [OF assms(2) r] refl] show ?thesis by simp
qed

lemma scanString_clean:
  assumes "scanString s = Some ((tok, lit), s')" and "clean s"
  shows "clean s' \<and> (tok = IDENT \<longrightarrow> lit \<noteq> [])"
proof -
  obtain ch s1 where r: "read s = (ch, s1)" by (cases "read s")
  have c1: "clean s1" using clean_read [OF assms(2) r] .
  show ?thesis
  proof (cases "ch = CHR 0x60")
    case True
    then have "lastRune s1 = Some (CHR 0x60)" using read_lastRune [OF r] by (simp add: eof_def)
    with assms(1) r True c1 show ?thesis
      by (auto simp: scanString_def split: Option.bind_splits dest: readString_backtick)
  next
    case False
    with assms(1) r c1 show ?thesis
      by (auto simp: scanString_def split: Option.bind_splits if_splits
               dest: readString_clean [OF _ _ refl])
  qed
qed

lemma Scan_clean:
  assumes "Scan s = Some ((tok, lit), s')" and "clean s"
  shows "clean s' \<and> (tok = IDENT \<longrightarrow> lit \<noteq> [])"
proof -
  obtain ch s1 where r: "read s = (ch, s1)" by (cases "read s")
  obtain c s2 where r2: "read s1 = (c, s2)" by (cases "read s1")
  have c1: "clean s1" using clean_read [OF assms(2) r] .
  have c2: "clean s2" using clean_read [OF c1 r2] .
  have cu: "clean (unread s1)" using c1 by (rule clean_unread)
  obtain ch' s1' where r': "read (unread s1) = (ch', s1')" by (cases "read (unread s1)")
  have c1': "clean s1'" using clean_read [OF cu r'] .
  have cuu: "clean (unread (unread s2))" using c2 by (intro clean_unread)
  from assms(1) r r2 r' c1 c2 cu c1' cuu show ?thesis
    unfolding Scan_def scanWhitespace_def Scanner_scanIdent_def scanDigit_def
    by (auto split: if_splits
             dest: scanWhitespace_loop_clean [OF _ _ refl] scanDigit_loop_clean [OF _ _ refl]
                   scanIdent_loop_clean [OF _ _ _ refl] scanString_clean
                   scanInlineComment_clean [OF _ _ refl] Scan_comment_loop_clean [OF _ _ refl]
             intro: clean_unread)
qed

lemma unscan_ok: "ok p \<Longrightarrow> ok (unscan p)"
  by (simp add: ok_def unscan_def)

lemma scan_ok_both:
  "scan p = Some ((tok, lit), p') \<Longrightarrow> ok p \<Longrightarrow> ok p' \<and> (tok = IDENT \<longrightarrow> lit \<noteq> [])"
  by (auto simp: scan_def ok_def split: if_splits Option.bind_splits dest: Scan_clean)

lemma scan_ok: "scan p = Some (x, p') \<Longrightarrow> ok p \<Longrightarrow> ok p'"
  using scan_ok_both [of p "fst x" "snd x" p'] by simp

lemma scan_IDENT: "scan p = Some ((IDENT, lit), p') \<Longrightarrow> ok p \<Longrightarrow> lit \<noteq> []"
  using scan_ok_both [of p IDENT lit p'] by simp

lemma siw_ok: "scanIgnoreWhitespace p = Some (x, p') \<Longrightarrow> ok p \<Longrightarrow> ok p'"
  by (auto simp: scanIgnoreWhitespace_def split: if_splits Option.bind_splits;
      blast intro: scan_ok)

lemma siw_IDENT: "scanIgnoreWhitespace p = Some ((IDENT, lit), p') \<Longrightarrow> ok p \<Longrightarrow> lit \<noteq> []"
  by (auto simp: scanIgnoreWhitespace_def split: if_splits Option.bind_splits;
      blast intro: scan_ok dest: scan_IDENT)

lemma Parser_scanIdent_ok: "Parser_scanIdent p = Some (x, p') \<Longrightarrow> ok p \<Longrightarrow> ok p'"
  by (auto simp: Parser_scanIdent_def split: if_splits Option.bind_splits;
      blast intro: siw_ok)

lemma Parser_scanIdent_IDENT:
  "Parser_scanIdent p = Some ((IDENT, lit), p') \<Longrightarrow> ok p \<Longrightarrow> lit \<noteq> []"
  by (auto simp: Parser_scanIdent_def split: if_splits Option.bind_splits;
      blast dest: siw_IDENT)

lemma scanParenIdent_ok:
  "scanParenIdent p = Some (x, p') \<Longrightarrow> ok p \<Longrightarrow> ok p'"
  by (auto simp: scanParenIdent_def split: if_splits Option.bind_splits;
      blast intro: siw_ok)

lemma scanType_ok: "scanType p = Some (Inr (x, p')) \<Longrightarrow> ok p \<Longrightarrow> ok p'"
  by (auto simp: scanType_def split: if_splits Option.bind_splits;
      blast intro: siw_ok unscan_ok)

lemma scanDefault_ok: "scanDefault p = Some (Inr (x, p')) \<Longrightarrow> ok p \<Longrightarrow> ok p'"
  by (auto simp: scanDefault_def split: if_splits Option.bind_splits;
      blast intro: siw_ok)

lemma scanKV_ok: "scanKV p = Some (Inr (x, p')) \<Longrightarrow> ok p \<Longrightarrow> ok p'"
  by (auto simp: scanKV_def split: if_splits Option.bind_splits;
      blast intro: siw_ok)

lemma scanPrimaryKey_ok: "scanPrimaryKey p = Some (Inr (x, p')) \<Longrightarrow> ok p \<Longrightarrow> ok p'"
  by (auto simp: scanPrimaryKey_def split: if_splits Option.bind_splits;
      blast intro: siw_ok unscan_ok scanParenIdent_ok Parser_scanIdent_ok)

lemma scanKey_ok: "scanKey p = Some (Inr (x, p')) \<Longrightarrow> ok p \<Longrightarrow> ok p'"
  by (auto simp: scanKey_def split: if_splits Option.bind_splits;
      blast intro: siw_ok unscan_ok scanParenIdent_ok)

lemma scanConstraint_ok:
  assumes "scanConstraint p = Some (Inr (x, p'))" and "ok p"
  shows "ok p'"
proof -
  from assms(1) obtain t1 p1 t2 p2 t3 p3 t4 p4 t5 p5 t6 p6 t7 p7 t8 where
    h: "scanIgnoreWhitespace p = Some (t1, p1)" "Parser_scanIdent p1 = Some (t2, p2)"
       "scanIgnoreWhitespace p2 = Some (t3, p3)" "scanIgnoreWhitespace p3 = Some (t4, p4)"
       "scanParenIdent p4 = Some (t5, p5)" "scanIgnoreWhitespace p5 = Some (t6, p6)"
       "Parser_scanIdent p6 = Some (t7, p7)" "scanParenIdent p7 = Some (t8, p')"
    unfolding scanConstraint_def by (auto split: Option.bind_splits if_splits)
  have "ok p1" using siw_ok [OF h(1) assms(2)] .
  then have "ok p2" using Parser_scanIdent_ok [OF h(2)] by simp
  then have "ok p3" using siw_ok [OF h(3)] by simp
  then have "ok p4" using siw_ok [OF h(4)] by simp
  then have "ok p5" using scanParenIdent_ok [OF h(5)] by simp
  then have "ok p6" using siw_ok [OF h(6)] by simp
  then have "ok p7" using Parser_scanIdent_ok [OF h(7)] by simp
  then show ?thesis using scanParenIdent_ok [OF h(8)] by simp
qed

lemma scanColumn_loop_ok:
  "scanColumn_loop column p = Some y \<Longrightarrow> ok p \<Longrightarrow> y = Inr (column', p') \<Longrightarrow>
     ok p' \<and> Column.Name column' = Column.Name column"
proof (induct arbitrary: column' p' rule: scanColumn_loop.raw_induct [rotated 1, consumes 1, case_names step])
  case (step loop column p y)
  from step(2) obtain tok lit p1 where first: "scanIgnoreWhitespace p = Some ((tok, lit), p1)"
    by (auto split: Option.bind_splits)
  have ok1: "ok p1" using siw_ok [OF first step(3)] .
  note body = step(2) [unfolded first, simplified]
  have go: ?case if l: "loop c q = Some y" and q: "ok q" and c: "Column.Name c = Column.Name column"
    for c q using step(1) [OF l q step(4)] c by simp
  consider (default) "tok = DEFAULT" | (null) "tok = NULL" | (not) "tok = NOT"
    | (comment) "tok = COMMENT" | (auto_incr) "tok = AUTO_INCREMENT"
    | (finish) "tok = COMMA \<or> tok = CLOSE_PAREN"
    | (other) "tok \<notin> {DEFAULT, NULL, NOT, COMMENT, AUTO_INCREMENT, COMMA, CLOSE_PAREN}"
    by auto
  then show ?case
  proof cases
    case default
    with body step(4) obtain val p2 where
      d: "scanDefault (unscan p1) = Some (Inr (val, p2))"
      and l: "loop (column\<lparr>Default := Some val, Nullable := (val = ''null'')\<rparr>) p2 = Some y"
      by (auto split: Option.bind_splits sum.splits)
    have "ok p2" using scanDefault_ok [OF d unscan_ok [OF ok1]] .
    then show ?thesis using go [OF l] by simp
  next
    case null
    with body have l: "loop (column\<lparr>Nullable := True\<rparr>) p1 = Some y" by simp
    show ?thesis using go [OF l ok1] by simp
  next
    case not
    with body step(4) obtain lit1 p2 where
      n: "scanIgnoreWhitespace p1 = Some ((NULL, lit1), p2)"
      and l: "loop (column\<lparr>Nullable := False\<rparr>) p2 = Some y"
      by (auto split: Option.bind_splits if_splits)
    show ?thesis using go [OF l siw_ok [OF n ok1]] by simp
  next
    case comment
    with body step(4) obtain lit1 p2 where
      n: "scanIgnoreWhitespace p1 = Some ((STRING, lit1), p2)"
      and l: "loop (column\<lparr>Comment := lit1\<rparr>) p2 = Some y"
      by (auto split: Option.bind_splits if_splits)
    show ?thesis using go [OF l siw_ok [OF n ok1]] by simp
  next
    case auto_incr
    with body have l: "loop (column\<lparr>AutoIncr := True\<rparr>) p1 = Some y" by simp
    show ?thesis using go [OF l ok1] by simp
  next
    case finish
    with body step(4) have "column' = column" "p' = unscan p1" by auto
    then show ?thesis using unscan_ok [OF ok1] by simp
  next
    case other
    with body step(4) show ?thesis by (auto split: if_splits)
  qed
qed

lemma scanColumn_ok:
  assumes "scanColumn p = Some (Inr (column, p'))" and "ok p"
  shows "ok p' \<and> Column.Name column \<noteq> []"
proof -
  from assms(1) obtain name p1 t sz p2 where
    i: "Parser_scanIdent p = Some ((IDENT, name), p1)"
    and ty: "scanType p1 = Some (Inr ((t, sz), p2))"
    and l: "scanColumn_loop (Column_zero\<lparr>Column.Name := name, Type := t, Size := sz\<rparr>) p2
              = Some (Inr (column, p'))"
    by (auto simp: scanColumn_def split: Option.bind_splits if_splits sum.splits)
  have "name \<noteq> []" using Parser_scanIdent_IDENT [OF i assms(2)] .
  moreover have "ok p2" using scanType_ok [OF ty Parser_scanIdent_ok [OF i assms(2)]] .
  ultimately show ?thesis using scanColumn_loop_ok [OF l _ refl] by simp
qed

lemma scanExtra_loop_ok:
  "scanExtra_loop extras p = Some y \<Longrightarrow> ok p \<Longrightarrow> y = Inr (extras', p') \<Longrightarrow> ok p'"
proof (induct arbitrary: extras' p' rule: scanExtra_loop.raw_induct [rotated 1, consumes 1, case_names step])
  case (step loop extras p y)
  from step(2) obtain tok lit p1 where first: "scanIgnoreWhitespace p = Some ((tok, lit), p1)"
    by (auto split: Option.bind_splits)
  have ok1: "ok p1" using siw_ok [OF first step(3)] .
  note body = step(2) [unfolded first, simplified]
  show ?case
  proof (cases "tok = SEMI_COLON")
    case True
    with body step(4) have "p' = unscan p1" by simp
    then show ?thesis using unscan_ok [OF ok1] by simp
  next
    case False
    with body step(4) obtain k v p2 where
      kv: "scanKV (if tok \<noteq> DEFAULT then unscan p1 else p1) = Some (Inr ((k, v), p2))"
      and l: "loop (extras(k \<mapsto> v)) p2 = Some y"
      by (auto split: Option.bind_splits sum.splits)
    have "ok (if tok \<noteq> DEFAULT then unscan p1 else p1)" using ok1 unscan_ok by simp
    from step(1) [OF l scanKV_ok [OF kv this] step(4)] show ?thesis .
  qed
qed

lemma scanExtra_ok: "scanExtra p = Some (Inr (x, p')) \<Longrightarrow> ok p \<Longrightarrow> ok p'"
  unfolding scanExtra_def using scanExtra_loop_ok [OF _ _ refl] by blast

lemma parse_skip_ok:
  "parse_skip p = Some y \<Longrightarrow> ok p \<Longrightarrow> y = (b, p') \<Longrightarrow> ok p'"
proof (induct arbitrary: b p' rule: parse_skip.raw_induct [rotated 1, consumes 1, case_names step])
  case (step loop p y)
  from step(2) obtain tok lit p1 where first: "scanIgnoreWhitespace p = Some ((tok, lit), p1)"
    by (auto split: Option.bind_splits)
  have ok1: "ok p1" using siw_ok [OF first step(3)] .
  note body = step(2) [unfolded first, simplified]
  have go: ?case if l: "loop p1 = Some y" using step(1) [OF l ok1 step(4)] .
  from body have "loop p1 = Some y \<or> y = (True, p1) \<or> y = (False, p1)"
    by (auto split: if_splits)
  with go step(4) ok1 show ?case by auto
qed

lemma parse_statements_ok:
  "parse_statements p = Some y \<Longrightarrow> ok p \<Longrightarrow> y = Inr (b, p') \<Longrightarrow> ok p'"
proof (induct arbitrary: b p' rule: parse_statements.raw_induct [rotated 1, consumes 1, case_names step])
  case (step loop p y)
  from step(2) obtain tok lit p1 where first: "scanIgnoreWhitespace p = Some ((tok, lit), p1)"
    by (auto split: Option.bind_splits)
  have ok1: "ok p1" using siw_ok [OF first step(3)] .
  note body = step(2) [unfolded first, simplified]
  have go: ?case if l: "loop q = Some y" and q: "ok q" for q using step(1) [OF l q step(4)] .
  show ?case
  proof (cases "tok = DROP \<or> tok = LOCK \<or> tok = UNLOCK")
    case True
    with body obtain semi p2 where sk: "parse_skip p1 = Some (semi, p2)"
      and r: "if semi then loop p2 = Some y else y = Inr (False, p2)"
      by (auto split: Option.bind_splits if_splits)
    have ok2: "ok p2" using parse_skip_ok [OF sk ok1 refl] .
    show ?thesis
    proof (cases semi)
      case True
      with r show ?thesis using go [OF _ ok2] by simp
    next
      case False
      with r step(4) ok2 show ?thesis by simp
    qed
  next
    case False
    with body have "loop p1 = Some y \<or> y = Inr (True, p1) \<or> y = Inr (False, p1) \<or> (\<exists>e. y = Inl e)"
      by (auto split: if_splits)
    with go [OF _ ok1] step(4) ok1 show ?thesis by auto
  qed
qed

lemma parse_items_ok:
  "parse_items table p = Some y \<Longrightarrow> ok p \<Longrightarrow> Columns table [] = None \<Longrightarrow>
     y = Inr (table', p') \<Longrightarrow> ok p' \<and> Columns table' [] = None"
proof (induct arbitrary: table' p' rule: parse_items.raw_induct [rotated 1, consumes 1, case_names step])
  case (step loop table p y)
  from step(2) obtain tok lit p1 where first: "scanIgnoreWhitespace p = Some ((tok, lit), p1)"
    by (auto split: Option.bind_splits)
  have ok1: "ok p1" using siw_ok [OF first step(3)] .
  have oku: "ok (unscan p1)" using unscan_ok [OF ok1] .
  note body = step(2) [unfolded first, simplified]
  have go: ?case if l: "loop t q = Some y" and q: "ok q" and t: "Columns t [] = None"
    for t q using step(1) [OF l q t step(5)] .
  consider (ident) "tok = IDENT" | (primary) "tok = PRIMARY" | (unique) "tok = UNIQUE"
    | (key) "tok = KEY" | (constraint) "tok = CONSTRAINT" | (close_paren) "tok = CLOSE_PAREN"
    | (comma) "tok = COMMA" | (semi_colon) "tok = SEMI_COLON"
    | (other) "tok \<notin> {IDENT, PRIMARY, UNIQUE, KEY, CONSTRAINT, CLOSE_PAREN, COMMA, SEMI_COLON}"
    by auto
  then show ?case
  proof cases
    case ident
    with body step(5) obtain col p2 where
      c: "scanColumn (unscan p1) = Some (Inr (col, p2))"
      and l: "loop (table\<lparr>Columns := (Columns table)(Column.Name col \<mapsto> col)\<rparr>) p2 = Some y"
      by (auto split: Option.bind_splits sum.splits)
    from scanColumn_ok [OF c oku] have "ok p2" "Column.Name col \<noteq> []" by simp_all
    then show ?thesis using go [OF l] step(4) by simp
  next
    case primary
    with body step(5) obtain k p2 where
      c: "scanPrimaryKey (unscan p1) = Some (Inr (k, p2))"
      and l: "loop (table\<lparr>PrimaryKey := k\<rparr>) p2 = Some y"
      by (auto split: Option.bind_splits sum.splits)
    show ?thesis using go [OF l scanPrimaryKey_ok [OF c oku]] step(4) by simp
  next
    case unique
    with body step(5) obtain k v p2 where
      c: "scanKey p1 = Some (Inr ((k, v), p2))"
      and l: "loop (table\<lparr>UniqueKeys := (UniqueKeys table)(k \<mapsto> v)\<rparr>) p2 = Some y"
      by (auto split: Option.bind_splits sum.splits)
    show ?thesis using go [OF l scanKey_ok [OF c ok1]] step(4) by simp
  next
    case key
    with body step(5) obtain k v p2 where
      c: "scanKey (unscan p1) = Some (Inr ((k, v), p2))"
      and l: "loop (table\<lparr>Keys := (Keys table)(k \<mapsto> v)\<rparr>) p2 = Some y"
      by (auto split: Option.bind_splits sum.splits)
    show ?thesis using go [OF l scanKey_ok [OF c oku]] step(4) by simp
  next
    case constraint
    with body step(5) obtain cos p2 where
      c: "scanConstraint (unscan p1) = Some (Inr (cos, p2))"
      and l: "loop (table\<lparr>Constraints := (Constraints table)(ForeignKey cos \<mapsto> cos)\<rparr>) p2 = Some y"
      by (auto split: Option.bind_splits sum.splits)
    show ?thesis using go [OF l scanConstraint_ok [OF c oku]] step(4) by simp
  next
    case close_paren
    with body obtain tok2 lit2 p2 where
      second: "scanIgnoreWhitespace p1 = Some ((tok2, lit2), p2)"
      by (auto split: Option.bind_splits)
    have ok2: "ok p2" using siw_ok [OF second ok1] .
    show ?thesis
    proof (cases "tok2 = SEMI_COLON")
      case True
      with body close_paren second step(5) have "table' = table" "p' = p2" by simp_all
      then show ?thesis using ok2 step(4) by simp
    next
      case False
      with body close_paren second step(5) obtain extras where
        e: "scanExtra (unscan p2) = Some (Inr (extras, p'))"
        and t: "table' = table\<lparr>Extras := extras\<rparr>"
        by (auto split: Option.bind_splits sum.splits)
      show ?thesis using scanExtra_ok [OF e unscan_ok [OF ok2]] t step(4) by simp
    qed
  next
    case comma
    with body have l: "loop table p1 = Some y" by simp
    show ?thesis using go [OF l ok1 step(4)] .
  next
    case semi_colon
    with body step(5) have "table' = table" "p' = p1" by simp_all
    then show ?thesis using ok1 step(4) by simp
  next
    case other
    with body step(5) show ?thesis by (auto split: if_splits)
  qed
qed

lemma parse_ok:
  assumes "parse p = Some (Inr (Some table, p'))" and "ok p"
  shows "ok p' \<and> Columns table [] = None"
proof -
  from assms(1) obtain p1 t2 p2 name p3 t4 p4 where
    h: "parse_statements p = Some (Inr (True, p1))" "scanIgnoreWhitespace p1 = Some (t2, p2)"
       "Parser_scanIdent p2 = Some ((IDENT, name), p3)" "scanIgnoreWhitespace p3 = Some (t4, p4)"
       "parse_items (Table_new\<lparr>Table.Name := name\<rparr>) p4 = Some (Inr (table, p'))"
    unfolding parse_def
    by (auto split: Option.bind_splits if_splits sum.splits)
  have "ok p1" using parse_statements_ok [OF h(1) assms(2) refl] .
  then have "ok p2" using siw_ok [OF h(2)] by simp
  then have "ok p3" using Parser_scanIdent_ok [OF h(3)] by simp
  then have "ok p4" using siw_ok [OF h(4)] by simp
  then show ?thesis using parse_items_ok [OF h(5) _ _ refl] by (simp add: Table_new_def)
qed

lemma Parse_loop_ok:
  "Parse_loop schema p = Some y \<Longrightarrow> ok p \<Longrightarrow>
     (\<forall>n t. schema n = Some t \<longrightarrow> Columns t [] = None) \<Longrightarrow> y = (schema', err) \<Longrightarrow>
     schema' name = Some table \<Longrightarrow> Columns table [] = None"
proof (induct arbitrary: schema' err rule: Parse_loop.raw_induct [rotated 1, consumes 1, case_names step])
  case (step loop schema p y)
  from step(2) obtain r where r: "parse p = Some r" by (auto split: Option.bind_splits)
  note body = step(2) [unfolded r, simplified]
  show ?case
  proof (cases r)
    case (Inl e)
    with body step(5) have "schema' = schema" by simp
    with step(4,6) show ?thesis by blast
  next
    case (Inr tp)
    obtain t p1 where tp: "tp = (t, p1)" by (cases tp)
    show ?thesis
    proof (cases t)
      case None
      with body Inr tp step(5) have "schema' = schema" by simp
      with step(4,6) show ?thesis by blast
    next
      case (Some tab)
      with body Inr tp have l: "loop (schema(Table.Name tab \<mapsto> tab)) p1 = Some y" by simp
      from parse_ok [OF r [unfolded Inr tp Some] step(3)]
      have "ok p1" "Columns tab [] = None" by simp_all
      then have "\<forall>n t. (schema(Table.Name tab \<mapsto> tab)) n = Some t \<longrightarrow> Columns t [] = None"
        using step(4) by auto
      from step(1) [OF l \<open>ok p1\<close> this step(5,6)] show ?thesis .
    qed
  qed
qed

lemma NewParser_ok: "\<not> empty_backticks input \<Longrightarrow> ok (NewParser input)"
  by (simp add: ok_def NewParser_def NewScanner_def clean_def pending_def)

text \<open>
  Claim C8, amended: when the input has no two backticks that follow each other, every
  table of the schema that \<^verbatim>\<open>Parse\<close> returns, with or without an error, has no column
  under the empty name. (A column declared with the empty backtick-quoted identifier is
  stored under the empty name, as the counterexample shows.)
\<close>

theorem Parse_no_empty_column_name:
  assumes "\<not> empty_backticks input"
    and "Parse (NewParser input) = Some (schema, err)"
    and "schema name = Some table"
  shows "Columns table [] = None"
  using Parse_loop_ok [OF assms(2) [unfolded Parse_def] NewParser_ok [OF assms(1)] _ refl assms(3)]
  by simp

theorem Parse_no_empty_column_name_witness:
  "\<not> empty_backticks ''CREATE TABLE t (`a` int);''
   \<and> Parse (NewParser ''CREATE TABLE t (`a` int);'') =
       Some ([''t'' \<mapsto> Table_new\<lparr>Table.Name := ''t'',
                Columns := [''a'' \<mapsto> Column_zero\<lparr>Column.Name := ''a'', Type := ''int''\<rparr>]\<rparr>],
             None)
   \<and> [''t'' \<mapsto> Table_new\<lparr>Table.Name := ''t'',
         Columns := [''a'' \<mapsto> Column_zero\<lparr>Column.Name := ''a'', Type := ''int''\<rparr>]\<rparr>] ''t''
       = Some (Table_new\<lparr>Table.Name := ''t'',
                 Columns := [''a'' \<mapsto> Column_zero\<lparr>Column.Name := ''a'', Type := ''int''\<rparr>]\<rparr>)
   \<and> Columns (Table_new\<lparr>Table.Name := ''t'',
                Columns := [''a'' \<mapsto> Column_zero\<lparr>Column.Name := ''a'', Type := ''int''\<rparr>]\<rparr>) []
       = None"
proof -
  have input: "\<not> empty_backticks ''CREATE TABLE t (`a` int);''"
    by simp
  have run: "Parse (NewParser ''CREATE TABLE t (`a` int);'') =
      Some ([''t'' \<mapsto> Table_new\<lparr>Table.Name := ''t'',
               Columns := [''a'' \<mapsto> Column_zero\<lparr>Column.Name := ''a'', Type := ''int''\<rparr>]\<rparr>],
            None)"
    by (simp add: scan_defs parse_defs)
  have entry: "[''t'' \<mapsto> Table_new\<lparr>Table.Name := ''t'',
        Columns := [''a'' \<mapsto> Column_zero\<lparr>Column.Name := ''a'', Type := ''int''\<rparr>]\<rparr>] ''t''
      = Some (Table_new\<lparr>Table.Name := ''t'',
                Columns := [''a'' \<mapsto> Column_zero\<lparr>Column.Name := ''a'', Type := ''int''\<rparr>]\<rparr>)"
    by simp
  show ?thesis
    by (intro conjI input run entry Parse_no_empty_column_name [OF input run entry])
qed

section \<open>Determinism\<close>

lemma read_cong: "runes s1 = runes s2 \<Longrightarrow> read s1 = read s2"
  by (simp add: read_def ReadRune_def split: list.splits)

lemma Scan_cong: "runes s1 = runes s2 \<Longrightarrow> Scan s1 = Scan s2"
  by (simp add: Scan_def read_cong [of s1 s2])

lemma Parser_fresh_eq:
  fixes p1 p2 :: Parser
  assumes "buf_n p1 = buf_n p2"
  shows "p1\<lparr>scanner := s, buf_tok := tok, buf_lit := lit\<rparr> =
         p2\<lparr>scanner := s, buf_tok := tok, buf_lit := lit\<rparr>"
  using assms by (cases p1, cases p2) simp

lemma scan_cong:
  assumes "runes (scanner p1) = runes (scanner p2)" and "buf_n p1 = 0" and "buf_n p2 = 0"
  shows "scan p1 = scan p2"
proof -
  have "Scan (scanner p1) = Scan (scanner p2)" using assms(1) by (rule Scan_cong)
  moreover have "buf_n p1 = buf_n p2" using assms(2,3) by simp
  ultimately show ?thesis
    using assms(2,3) by (simp add: scan_def Parser_fresh_eq [of p1 p2])
qed

text \<open>
  Claim C10: the result of \<^verbatim>\<open>Parse\<close> depends on the input characters only. Two parsers
  with nothing pushed back, as \<^verbatim>\<open>NewParser\<close> makes them, that have the same unread input
  return the same schema and the same error, or both do not return; what else their
  scanners and pushback buffers hold does not matter, and \<^verbatim>\<open>Parse\<close> reads no other state.
\<close>

theorem Parse_depends_on_input_only:
  assumes "runes (scanner p1) = runes (scanner p2)" and "buf_n p1 = 0" and "buf_n p2 = 0"
  shows "Parse p1 = Parse p2"
proof -
  have "scanIgnoreWhitespace p1 = scanIgnoreWhitespace p2"
    using scan_cong [OF assms] by (simp add: scanIgnoreWhitespace_def)
  then have "parse_statements p1 = parse_statements p2"
    by (subst (1 2) parse_statements.simps) simp
  then have "parse p1 = parse p2" by (simp add: parse_def)
  then show ?thesis unfolding Parse_def by (subst (1 2) Parse_loop.simps) simp
qed

theorem Parse_depends_on_input_only_witness:
  "runes (scanner (NewParser ''CREATE TABLE t (a int);'')) =
     runes (scanner \<lparr>scanner = \<lparr>runes = ''CREATE TABLE t (a int);'', lastRune = Some (CHR ''z'')\<rparr>,
                     buf_tok = IDENT, buf_lit = ''stale'', buf_n = 0\<rparr>)
   \<and> buf_n (NewParser ''CREATE TABLE t (a int);'') = 0
   \<and> Parse (NewParser ''CREATE TABLE t (a int);'') =
       Parse \<lparr>scanner = \<lparr>runes = ''CREATE TABLE t (a int);'', lastRune = Some (CHR ''z'')\<rparr>,
              buf_tok = IDENT, buf_lit = ''stale'', buf_n = 0\<rparr>"
  using Parse_depends_on_input_only [of "NewParser ''CREATE TABLE t (a int);''"
      "\<lparr>scanner = \<lparr>runes = ''CREATE TABLE t (a int);'', lastRune = Some (CHR ''z'')\<rparr>,
        buf_tok = IDENT, buf_lit = ''stale'', buf_n = 0\<rparr>"]
  by (simp add: NewParser_def NewScanner_def)

end
